theory Spec2Isabelle
  imports Main "HOL-Library.AList"
begin

section \<open>Data model\<close>

text \<open>
  The repository holds three plugins for a GraphQL schema generated from a PostgreSQL
  database: \<^verbatim>\<open>src/src/ReplaceTypeWithPatchPlugin.ts\<close> (schema substitution), and two versions of
  the runtime rewrite, \<^verbatim>\<open>src/unnamed/part_000\<close> (a patch map is precomputed when the schema is
  built, the argument tree is then rewritten in place) and \<^verbatim>\<open>src/ResolvePatchFieldsPlugin.ts\<close>
  (nothing is precomputed, every call builds a fresh argument tree).

  Every exception the JavaScript can raise here is a \<^verbatim>\<open>TypeError\<close> (a property read on
  \<^verbatim>\<open>undefined\<close>, \<^verbatim>\<open>Object.entries\<close> of \<^verbatim>\<open>null\<close>, the \<^verbatim>\<open>in\<close> operator on a primitive, a method call on
  a value that has no such method), so results are of type \<open>error + 'a\<close>.
\<close>

datatype error = TypeError

text \<open>
  JavaScript values as far as the plugins inspect them. An object is an ordinary object
  (its prototype is \<^verbatim>\<open>Object.prototype\<close>, as for an object literal), given by the list of
  its own enumerable properties in the order in which \<^verbatim>\<open>Object.entries\<close> gives them, which
  is the order of insertion for the keys met here (JavaScript would give keys that are
  array indices first; no property below depends on where such a key stands);
  \<open>JUndefined\<close> is what reading an absent property gives.

  An object also has the members that it inherits: \<^verbatim>\<open>"constructor" in {}\<close> is true and
  \<^verbatim>\<open>({}).constructor\<close> is a function. Such a value is no data; it is a built-in of the
  engine, named by where it is found: \<open>ObjectPrototype k\<close> is the value of
  \<^verbatim>\<open>Object.prototype[k]\<close> as an ordinary object inherits it, \<open>ArrayPrototype k\<close> that of
  \<^verbatim>\<open>Array.prototype[k]\<close>, and \<open>Builtin s\<close> any other built-in object. A built-in is always
  an object (a function or a prototype object); what a member of a built-in holds is a
  primitive or again a built-in, an \<open>atom\<close>.
\<close>

datatype native = ObjectPrototype string | ArrayPrototype string | Builtin string

datatype atom = AUndefined | ANull | ABool bool | ANum int | AStr string | ANative native

datatype json =
    JUndefined
  | JNull
  | JBool bool
  | JNum int
  | JStr string
  | JArr "json list"
  | JObj "(string \<times> json) list"
  | JNative native

fun json_of :: "atom \<Rightarrow> json" where
  "json_of AUndefined = JUndefined"
| "json_of ANull = JNull"
| "json_of (ABool x) = JBool x"
| "json_of (ANum n) = JNum n"
| "json_of (AStr s) = JStr s"
| "json_of (ANative n) = JNative n"

text \<open>
  The value of the smart tag \<^verbatim>\<open>tags.patch\<close>: \<^verbatim>\<open>true\<close> for a bare \<^verbatim>\<open>@patch\<close>, a string
  for one annotation, an array of strings for several. An absent tag (or an absent
  \<^verbatim>\<open>tags\<close> object, or no declaration found: the source reads it through \<^verbatim>\<open>?.\<close>) is \<open>None\<close>.
\<close>

datatype tag = TagTrue | TagStr string | TagArr "string list"

record pg_attribute =
  attr_name :: string
  attr_num :: nat

record pg_class =
  class_namespace :: "string option"
  class_name :: string
  class_attributes :: "pg_attribute list"

record pg_proc =
  proc_name :: string
  proc_patch :: "tag option"

record pg_type =
  type_name :: string
  type_patch :: "tag option"

text \<open>
  GraphQL types: the two wrappers, the three kinds of type that have fields
  (\<^verbatim>\<open>isInputObjectType\<close>, \<^verbatim>\<open>isObjectType\<close>, \<^verbatim>\<open>isInterfaceType\<close>), and everything else (scalars,
  enums). A type with fields carries its name and its field map \<^verbatim>\<open>getFields()\<close>, each field
  with its \<^verbatim>\<open>type\<close>. The type graph is taken as the finite tree of its unfolding.
\<close>

datatype kind = InputObjectType | ObjectType | InterfaceType

datatype gtype =
    ListType gtype
  | NonNullType gtype
  | ObjectLike kind string "(string \<times> gtype) list"
  | OtherType string

text \<open>
  The \<^verbatim>\<open>build\<close> object: the introspection results, the inflection functions and the type
  registry. The inflectors are collaborators of the plugins and stay parameters;
  \<^verbatim>\<open>tableType\<close> is the only one that is handed a possibly undefined table, so it may fail.

  The record also carries what the rewrite can observe of the JavaScript engine it runs
  on and that differs from one engine to the next: the names of the members of
  \<^verbatim>\<open>Array.prototype\<close> (each edition of the language adds some), and for a built-in \<open>n\<close> the
  names \<open>k\<close> with \<^verbatim>\<open>k in n\<close> and the value of \<^verbatim>\<open>n[k]\<close>.
\<close>

record build =
  procedure :: "pg_proc list"
  pgType :: "pg_type list"
  pgClass :: "pg_class list"
  functionInputType :: "pg_proc \<Rightarrow> string"
  inputType :: "string \<Rightarrow> string"
  domainType :: "pg_type \<Rightarrow> string"
  argument :: "string \<Rightarrow> string"
  column :: "pg_attribute \<Rightarrow> string"
  tableType :: "pg_class option \<Rightarrow> error + string"
  patchType :: "string \<Rightarrow> string"
  getTypeByName :: "string \<Rightarrow> gtype option"
  arrayPrototype :: "string list"
  nativeIn :: "native \<Rightarrow> string \<Rightarrow> bool"
  nativeGet :: "native \<Rightarrow> string \<Rightarrow> atom"

type_synonym patch_map = "(string \<times> pg_class option) list"

section \<open>JavaScript primitives used by the plugins\<close>

text \<open>\<^verbatim>\<open>String.prototype.split\<close> with a one-character separator.\<close>

fun js_split :: "char \<Rightarrow> string \<Rightarrow> string list" where
  "js_split sep [] = [[]]"
| "js_split sep (c # cs) =
     (if c = sep then [] # js_split sep cs
      else (case js_split sep cs of [] \<Rightarrow> [[c]] | p # ps \<Rightarrow> (c # p) # ps))"

text \<open>The decimal numeral of an array index, as \<^verbatim>\<open>Object.entries\<close> and \<^verbatim>\<open>in\<close> name it.\<close>

definition digit :: "nat \<Rightarrow> char" where
  "digit d = char_of (d + 48)"

fun decimal :: "nat \<Rightarrow> string" where
  "decimal n = (if 10 \<le> n then decimal (n div 10) @ [digit (n mod 10)] else [digit n])"

declare decimal.simps [simp del]

definition index_keys :: "'a list \<Rightarrow> string list" where
  "index_keys xs = map decimal [0..<length xs]"

text \<open>
  \<^verbatim>\<open>Object.entries(v)\<close>: it throws on \<^verbatim>\<open>null\<close> and \<^verbatim>\<open>undefined\<close>, gives nothing for a number or a
  boolean, the indexed characters of a string and the indexed elements of an array. A
  built-in has no enumerable property of its own.
\<close>

fun entries :: "json \<Rightarrow> error + (string \<times> json) list" where
  "entries JUndefined = Inl TypeError"
| "entries JNull = Inl TypeError"
| "entries (JBool _) = Inr []"
| "entries (JNum _) = Inr []"
| "entries (JStr s) = Inr (zip (index_keys s) (map (\<lambda>c. JStr [c]) s))"
| "entries (JArr xs) = Inr (zip (index_keys xs) xs)"
| "entries (JObj kvs) = Inr kvs"
| "entries (JNative _) = Inr []"

text \<open>
  The names of the members of \<^verbatim>\<open>Object.prototype\<close>: those of the language standard with its
  annex B, which every engine that runs PostGraphile has.
\<close>

definition objectPrototype :: "string list" where
  "objectPrototype =
     [''constructor'', ''__defineGetter__'', ''__defineSetter__'', ''hasOwnProperty'',
      ''__lookupGetter__'', ''__lookupSetter__'', ''isPrototypeOf'', ''propertyIsEnumerable'',
      ''toString'', ''valueOf'', ''__proto__'', ''toLocaleString'']"

text \<open>
  \<^verbatim>\<open>key in v\<close>: it throws when \<open>v\<close> is not an object; it holds for the own properties of \<open>v\<close>
  and for the members that \<open>v\<close> inherits, an object from \<^verbatim>\<open>Object.prototype\<close>, an array
  from \<^verbatim>\<open>Array.prototype\<close> and then from \<^verbatim>\<open>Object.prototype\<close>.
\<close>

fun has_in :: "build \<Rightarrow> string \<Rightarrow> json \<Rightarrow> error + bool" where
  "has_in b k (JObj kvs) = Inr (k \<in> fst ` set kvs \<or> k \<in> set objectPrototype)"
| "has_in b k (JArr xs) =
     Inr (k = ''length'' \<or> k \<in> set (index_keys xs) \<or> k \<in> set (arrayPrototype b)
          \<or> k \<in> set objectPrototype)"
| "has_in b k (JNative n) = Inr (nativeIn b n k)"
| "has_in b k _ = Inl TypeError"

text \<open>
  \<^verbatim>\<open>v[key]\<close>, which the plugins evaluate only where \<^verbatim>\<open>key in v\<close> has just held, so on an
  object, an array or a built-in: the own property when there is one, the member of the
  nearest prototype that has one otherwise, \<^verbatim>\<open>undefined\<close> when nothing has it.
\<close>

fun get_prop :: "build \<Rightarrow> json \<Rightarrow> string \<Rightarrow> json" where
  "get_prop b (JObj kvs) k =
     (case map_of kvs k of
        Some x \<Rightarrow> x
      | None \<Rightarrow> if k \<in> set objectPrototype then JNative (ObjectPrototype k) else JUndefined)"
| "get_prop b (JArr xs) k =
     (case map_of (zip (index_keys xs) xs) k of
        Some x \<Rightarrow> x
      | None \<Rightarrow>
          if k = ''length'' then JNum (int (length xs))
          else if k \<in> set (arrayPrototype b) then JNative (ArrayPrototype k)
          else if k \<in> set objectPrototype then JNative (ObjectPrototype k)
          else JUndefined)"
| "get_prop b (JNative n) k = json_of (nativeGet b n k)"
| "get_prop b _ k = JUndefined"

text \<open>
  \<^verbatim>\<open>v[key] = x\<close> in strict mode, for the values on which the rewrite can reach it: the
  property of an object is set (in place when the key exists, appended otherwise); an
  index of a primitive string is read-only.
\<close>

fun assign :: "json \<Rightarrow> string \<Rightarrow> json \<Rightarrow> error + json" where
  "assign (JObj kvs) k x = Inr (JObj (AList.update k x kvs))"
| "assign v k x = Inl TypeError"

section \<open>The annotation and the patch tags\<close>

definition getKey :: "string \<Rightarrow> string \<Rightarrow> string" where
  "getKey type arg = type @ ''|'' @ arg"

text \<open>JavaScript truthiness of \<^verbatim>\<open>tags.patch\<close>: \<^verbatim>\<open>undefined\<close> and the empty string are falsy.\<close>

fun truthy :: "tag option \<Rightarrow> bool" where
  "truthy None = False"
| "truthy (Some (TagStr s)) = (s \<noteq> [])"
| "truthy (Some _) = True"

text \<open>
  The body that the three plugins share word for word: split the annotation at the
  space, the table identifier at the dot, and find the introspected table. A missing
  second token is \<^verbatim>\<open>undefined.split\<close> and throws; a table that is not found is
  \<^verbatim>\<open>undefined\<close> and is returned as such.
\<close>

definition findTable :: "build \<Rightarrow> string \<Rightarrow> error + (string \<times> pg_class option)" where
  "findTable b fieldAndTable =
     (case js_split (CHR '' '') fieldAndTable of
        arg # tableId # _ \<Rightarrow>
          (case js_split (CHR ''.'') tableId of
             tableNamespace # rest \<Rightarrow>
               Inr (arg,
                    find (\<lambda>t. class_namespace t = Some tableNamespace \<and>
                              (case rest of [] \<Rightarrow> False | tableName # _ \<Rightarrow> class_name t = tableName))
                         (pgClass b))
           | [] \<Rightarrow> Inl TypeError)
      | _ \<Rightarrow> Inl TypeError)"

text \<open>\<^verbatim>\<open>find(...)?.tags?.patch\<close> on the procedures, then on the composite types.\<close>

definition procPatch :: "build \<Rightarrow> string \<Rightarrow> tag option" where
  "procPatch b name =
     (case find (\<lambda>proc. functionInputType b proc = name) (procedure b) of
        None \<Rightarrow> None | Some proc \<Rightarrow> proc_patch proc)"

definition typePatch :: "build \<Rightarrow> string \<Rightarrow> tag option" where
  "typePatch b name =
     (case find (\<lambda>compositeType. inputType b (domainType b compositeType) = name) (pgType b) of
        None \<Rightarrow> None | Some compositeType \<Rightarrow> type_patch compositeType)"

definition patchTags :: "build \<Rightarrow> string \<Rightarrow> tag option" where
  "patchTags b name = (if truthy (procPatch b name) then procPatch b name else typePatch b name)"

section \<open>The runtime rewrite with a precomputed patch map (part 000)\<close>

text \<open>
  \<^verbatim>\<open>src/unnamed/part_000\<close>. The \<^verbatim>\<open>forEach\<close> over the annotations (lines 70 to 86): each one
  is a \<^verbatim>\<open>patchMap.set\<close>, which keeps the place of a key that the map already has.
\<close>

fun setPatchTags :: "build \<Rightarrow> string \<Rightarrow> string list \<Rightarrow> patch_map \<Rightarrow> error + patch_map" where
  "setPatchTags b name [] patchMap = Inr patchMap"
| "setPatchTags b name (fieldAndTable # rest) patchMap =
     (case findTable b fieldAndTable of
        Inl e \<Rightarrow> Inl e
      | Inr (arg, table) \<Rightarrow>
          setPatchTags b name rest (AList.update (getKey name (argument b arg)) table patchMap))"

text \<open>
  \<^verbatim>\<open>typeof patchTags === 'string' || typeof patchTags === 'object'\<close>, and
  \<^verbatim>\<open>Array.isArray(patchTags) ? patchTags : [patchTags]\<close> for a string or an array of strings.
\<close>

fun stringOrObject :: "tag option \<Rightarrow> bool" where
  "stringOrObject (Some (TagStr _)) = True"
| "stringOrObject (Some (TagArr _)) = True"
| "stringOrObject _ = False"

fun tagList :: "tag option \<Rightarrow> string list" where
  "tagList (Some (TagStr s)) = [s]"
| "tagList (Some (TagArr ss)) = ss"
| "tagList _ = []"

text \<open>
  \<^verbatim>\<open>populatePatchMap\<close> (lines 44 to 95): the wrappers are unwrapped; a type with fields sets
  the entries of its annotations when it is an input object type, then walks the types
  of its fields in the order of \<^verbatim>\<open>Object.values(type.getFields())\<close>; any other type does
  nothing. The map is the one \<^verbatim>\<open>patchMap\<close> of the filter, threaded through the walk.
\<close>

fun populatePatchMap :: "build \<Rightarrow> gtype \<Rightarrow> patch_map \<Rightarrow> error + patch_map"
  and populateFields :: "build \<Rightarrow> (string \<times> gtype) list \<Rightarrow> patch_map \<Rightarrow> error + patch_map"
where
  "populatePatchMap b (ListType ofType) patchMap = populatePatchMap b ofType patchMap"
| "populatePatchMap b (NonNullType ofType) patchMap = populatePatchMap b ofType patchMap"
| "populatePatchMap b (ObjectLike k name gqlFields) patchMap =
     (case (if k = InputObjectType \<and> truthy (patchTags b name) \<and> stringOrObject (patchTags b name)
            then setPatchTags b name (tagList (patchTags b name)) patchMap
            else Inr patchMap) of
        Inl e \<Rightarrow> Inl e
      | Inr patchMap' \<Rightarrow> populateFields b gqlFields patchMap')"
| "populatePatchMap b (OtherType _) patchMap = Inr patchMap"
| "populateFields b [] patchMap = Inr patchMap"
| "populateFields b ((fieldName, fieldType) # rest) patchMap =
     (case populatePatchMap b fieldType patchMap of
        Inl e \<Rightarrow> Inl e
      | Inr patchMap' \<Rightarrow> populateFields b rest patchMap')"

text \<open>
  The \<^verbatim>\<open>reduce\<close> over the attributes of the table that builds \<^verbatim>\<open>newJson\<close>. The two rewrite
  plugins have the same text here. \<^verbatim>\<open>patchMap.get(key).attributes\<close> throws when the table
  is \<^verbatim>\<open>undefined\<close>.
\<close>

fun reduceAttributes ::
  "build \<Rightarrow> pg_attribute list \<Rightarrow> json \<Rightarrow> (string \<times> json) list \<Rightarrow> error + (string \<times> json) list"
where
  "reduceAttributes b [] val obj = Inr obj"
| "reduceAttributes b (attr # attrs) val obj =
     (case has_in b (column b attr) val of
        Inl e \<Rightarrow> Inl e
      | Inr True \<Rightarrow>
          reduceAttributes b attrs val
            (AList.update (attr_name attr) (get_prop b val (column b attr)) obj)
      | Inr False \<Rightarrow> reduceAttributes b attrs val obj)"

definition newJson :: "build \<Rightarrow> pg_class option \<Rightarrow> json \<Rightarrow> error + json" where
  "newJson b table val =
     (case table of
        None \<Rightarrow> Inl TypeError
      | Some t \<Rightarrow>
          (case reduceAttributes b (class_attributes t) val [] of
             Inl e \<Rightarrow> Inl e
           | Inr obj \<Rightarrow> Inr (JObj obj)))"

text \<open>
  \<^verbatim>\<open>transform\<close> (lines 131 to 179): the three branches of its \<^verbatim>\<open>if\<close> chain are a list type
  with an array, a non-null type, and a type with fields with a value that is not an
  array; nothing happens otherwise. \<open>transform_entries\<close> is the \<^verbatim>\<open>forEach\<close> over
  \<^verbatim>\<open>Object.entries(argValues)\<close>, taken once before the loop, with the object as it is so far.

  The rewrite of part 000 mutates the argument tree in place; the model returns the tree
  after the mutation. No two positions of an argument tree share an object, so the
  value of a position after the call is the value returned for it. \<open>mutated v arg x\<close> is
  the value \<open>v\<close> once the value of its property \<open>arg\<close> was mutated to \<open>x\<close>: an object keeps
  its keys in place, a primitive has nothing to mutate.
\<close>

fun mutated :: "json \<Rightarrow> string \<Rightarrow> json \<Rightarrow> json" where
  "mutated (JObj kvs) arg x = JObj (AList.update arg x kvs)"
| "mutated v arg x = v"

function transform :: "build \<Rightarrow> patch_map \<Rightarrow> gtype \<Rightarrow> json \<Rightarrow> error + json"
  and transform_items :: "build \<Rightarrow> patch_map \<Rightarrow> gtype \<Rightarrow> json list \<Rightarrow> error + json list"
  and transform_entries ::
    "build \<Rightarrow> patch_map \<Rightarrow> string \<Rightarrow> (string \<times> gtype) list \<Rightarrow> (string \<times> json) list \<Rightarrow> json
       \<Rightarrow> error + json"
where
  "transform b patchMap (ListType ofType) argValues =
     (case argValues of
        JArr listItems \<Rightarrow>
          (case transform_items b patchMap ofType listItems of
             Inl e \<Rightarrow> Inl e
           | Inr listItems' \<Rightarrow> Inr (JArr listItems'))
      | _ \<Rightarrow> Inr argValues)"
| "transform b patchMap (NonNullType ofType) argValues = transform b patchMap ofType argValues"
| "transform b patchMap (ObjectLike k name gqlFields) argValues =
     (case argValues of
        JArr _ \<Rightarrow> Inr argValues
      | _ \<Rightarrow>
          (case entries argValues of
             Inl e \<Rightarrow> Inl e
           | Inr es \<Rightarrow> transform_entries b patchMap name gqlFields es argValues))"
| "transform b patchMap (OtherType _) argValues = Inr argValues"
| "transform_items b patchMap ofType [] = Inr []"
| "transform_items b patchMap ofType (listItem # rest) =
     (case transform b patchMap ofType listItem of
        Inl e \<Rightarrow> Inl e
      | Inr listItem' \<Rightarrow>
          (case transform_items b patchMap ofType rest of
             Inl e \<Rightarrow> Inl e
           | Inr rest' \<Rightarrow> Inr (listItem' # rest')))"
| "transform_entries b patchMap name gqlFields [] argValues = Inr argValues"
| "transform_entries b patchMap name gqlFields ((arg, val) # rest) argValues =
     (case map_of patchMap (getKey name arg) of
        Some table \<Rightarrow>
          (case newJson b table val of
             Inl e \<Rightarrow> Inl e
           | Inr newObj \<Rightarrow>
               (case assign argValues arg newObj of
                  Inl e \<Rightarrow> Inl e
                | Inr argValues' \<Rightarrow> transform_entries b patchMap name gqlFields rest argValues'))
      | None \<Rightarrow>
          (case map_of gqlFields arg of
             None \<Rightarrow> Inl TypeError
           | Some inputFieldType \<Rightarrow>
               (case transform b patchMap inputFieldType val of
                  Inl e \<Rightarrow> Inl e
                | Inr val' \<Rightarrow>
                    transform_entries b patchMap name gqlFields rest (mutated argValues arg val'))))"
  by pat_completeness auto

termination transform
proof -
  have field_smaller: "size ft < size_list (size_prod (\<lambda>_. 0) size) fs"
    if "map_of fs a = Some ft" for fs :: "(string \<times> gtype) list" and a ft
    using that by (induction fs) (auto split: if_splits)
  show ?thesis
    by (relation "inv_image (less_than <*lex*> less_than)
          (\<lambda>x. case x of
               Inl (b, pm, t, v) \<Rightarrow> (size t, 0)
             | Inr (Inl (b, pm, t, xs)) \<Rightarrow> (size t, Suc (length xs))
             | Inr (Inr (b, pm, n, fs, es, cur)) \<Rightarrow>
                 (size_list (size_prod (\<lambda>_. 0) size) fs, Suc (length es)))")
       (auto dest: field_smaller)
qed

text \<open>
  The filter of part 000 (lines 99 to 109) and its resolver (lines 181 to 184), as \<^verbatim>\<open>makeWrapResolversPlugin\<close> composes them:
  a field for which the filter returns \<^verbatim>\<open>null\<close> keeps its resolver, which then receives
  the submitted arguments; otherwise the resolver is wrapped. The filter runs when the
  schema is built: where it throws there is no schema, and \<open>mutation_precomputed\<close> gives
  that failure for every call. \<open>pgFieldIntrospection_kind\<close>
  is \<^verbatim>\<open>scope?.pgFieldIntrospection?.kind\<close>; \<open>field_args\<close> maps an argument name of the mutation
  field to its type.
\<close>

record scope =
  isRootMutation :: bool
  pgFieldIntrospection_kind :: "string option"

record field =
  field_args :: "(string \<times> gtype) list"

text \<open>\<^verbatim>\<open>args.input\<close>: reading an absent property gives \<^verbatim>\<open>undefined\<close>.\<close>

definition arg_value :: "(string \<times> json) list \<Rightarrow> string \<Rightarrow> json" where
  "arg_value args k = (case map_of args k of None \<Rightarrow> JUndefined | Some v \<Rightarrow> v)"

definition filter_precomputed :: "build \<Rightarrow> scope \<Rightarrow> field \<Rightarrow> error + patch_map option" where
  "filter_precomputed b sc fld =
     (if isRootMutation sc \<and> pgFieldIntrospection_kind sc = Some ''procedure'' then
        (case map_of (field_args fld) ''input'' of
           None \<Rightarrow> Inr None
         | Some inputArgType \<Rightarrow>
             (case populatePatchMap b inputArgType [] of
                Inl e \<Rightarrow> Inl e
              | Inr patchMap \<Rightarrow> if 0 < length patchMap then Inr (Some patchMap) else Inr None))
      else Inr None)"

text \<open>
  The wrapping resolver of part 000: \<^verbatim>\<open>transform(field.args?.input.type, args.input)\<close>, then
  \<^verbatim>\<open>resolve(source, args, context, resolveInfo)\<close> with the same \<^verbatim>\<open>args\<close> object. The result is
  the argument object that \<^verbatim>\<open>resolve\<close> receives.
\<close>

definition resolver_precomputed ::
  "build \<Rightarrow> field \<Rightarrow> patch_map \<Rightarrow> (string \<times> json) list \<Rightarrow> error + (string \<times> json) list"
where
  "resolver_precomputed b fld patchMap args =
     (case map_of (field_args fld) ''input'' of
        None \<Rightarrow> Inl TypeError
      | Some inputArgType \<Rightarrow>
          (case transform b patchMap inputArgType (arg_value args ''input'') of
             Inl e \<Rightarrow> Inl e
           | Inr input' \<Rightarrow>
               Inr (if ''input'' \<in> fst ` set args then AList.update ''input'' input' args
                    else args)))"

definition mutation_precomputed ::
  "build \<Rightarrow> scope \<Rightarrow> field \<Rightarrow> (string \<times> json) list \<Rightarrow> error + (string \<times> json) list"
where
  "mutation_precomputed b sc fld args =
     (case filter_precomputed b sc fld of
        Inl e \<Rightarrow> Inl e
      | Inr None \<Rightarrow> Inr args
      | Inr (Some patchMap) \<Rightarrow> resolver_precomputed b fld patchMap args)"

section \<open>The runtime rewrite without precomputation (ResolvePatchFieldsPlugin.ts)\<close>

text \<open>
  \<^verbatim>\<open>src/ResolvePatchFieldsPlugin.ts\<close>. Its \<^verbatim>\<open>transform\<close> (lines 47 to 131) builds the map
  \<^verbatim>\<open>patchArgAndTableMap\<close> of a type with fields each time it meets one (lines 63 to 94),
  then reduces the submitted entries into a fresh object (lines 99 to 126); a list type
  with an array is mapped, a non-null type unwrapped, and any other pair of a type and
  a value returns the value. Here the guard is \<^verbatim>\<open>if (patchTags)\<close> alone: a bare \<^verbatim>\<open>@patch\<close> (\<^verbatim>\<open>true\<close>) reaches
  \<^verbatim>\<open>fieldAndTable.split\<close>, which a boolean does not have. The name \<^verbatim>\<open>transform\<close> being that
  of part 000, the functions of this version end in \<open>legacy\<close>.
\<close>

fun setArgAndTable :: "build \<Rightarrow> string list \<Rightarrow> patch_map \<Rightarrow> error + patch_map" where
  "setArgAndTable b [] m = Inr m"
| "setArgAndTable b (fieldAndTable # rest) m =
     (case findTable b fieldAndTable of
        Inl e \<Rightarrow> Inl e
      | Inr (arg, table) \<Rightarrow> setArgAndTable b rest (AList.update (argument b arg) table m))"

definition patchArgAndTableMap :: "build \<Rightarrow> kind \<Rightarrow> string \<Rightarrow> error + patch_map" where
  "patchArgAndTableMap b k name =
     (if k = InputObjectType \<and> truthy (patchTags b name) then
        (case patchTags b name of
           Some TagTrue \<Rightarrow> Inl TypeError
         | tags \<Rightarrow> setArgAndTable b (tagList tags) [])
      else Inr [])"

function transform_legacy :: "build \<Rightarrow> gtype \<Rightarrow> json \<Rightarrow> error + json"
  and map_legacy :: "build \<Rightarrow> gtype \<Rightarrow> json list \<Rightarrow> error + json list"
  and reduce_legacy ::
    "build \<Rightarrow> patch_map \<Rightarrow> (string \<times> gtype) list \<Rightarrow> (string \<times> json) list \<Rightarrow> (string \<times> json) list
       \<Rightarrow> error + (string \<times> json) list"
where
  "transform_legacy b (ListType ofType) nestedArgs =
     (case nestedArgs of
        JArr listItems \<Rightarrow>
          (case map_legacy b ofType listItems of
             Inl e \<Rightarrow> Inl e
           | Inr listItems' \<Rightarrow> Inr (JArr listItems'))
      | _ \<Rightarrow> Inr nestedArgs)"
| "transform_legacy b (NonNullType ofType) nestedArgs = transform_legacy b ofType nestedArgs"
| "transform_legacy b (ObjectLike k name gqlFields) nestedArgs =
     (case patchArgAndTableMap b k name of
        Inl e \<Rightarrow> Inl e
      | Inr argAndTable \<Rightarrow>
          (case entries nestedArgs of
             Inl e \<Rightarrow> Inl e
           | Inr es \<Rightarrow>
               (case reduce_legacy b argAndTable gqlFields es [] of
                  Inl e \<Rightarrow> Inl e
                | Inr res \<Rightarrow> Inr (JObj res))))"
| "transform_legacy b (OtherType _) nestedArgs = Inr nestedArgs"
| "map_legacy b ofType [] = Inr []"
| "map_legacy b ofType (listItem # rest) =
     (case transform_legacy b ofType listItem of
        Inl e \<Rightarrow> Inl e
      | Inr listItem' \<Rightarrow>
          (case map_legacy b ofType rest of
             Inl e \<Rightarrow> Inl e
           | Inr rest' \<Rightarrow> Inr (listItem' # rest')))"
| "reduce_legacy b argAndTable gqlFields [] res = Inr res"
| "reduce_legacy b argAndTable gqlFields ((arg, val) # rest) res =
     (case map_of argAndTable arg of
        Some table \<Rightarrow>
          (case newJson b table val of
             Inl e \<Rightarrow> Inl e
           | Inr newObj \<Rightarrow>
               reduce_legacy b argAndTable gqlFields rest (AList.update arg newObj res))
      | None \<Rightarrow>
          (case map_of gqlFields arg of
             None \<Rightarrow> Inl TypeError
           | Some inputFieldType \<Rightarrow>
               (case transform_legacy b inputFieldType val of
                  Inl e \<Rightarrow> Inl e
                | Inr val' \<Rightarrow>
                    reduce_legacy b argAndTable gqlFields rest (AList.update arg val' res))))"
  by pat_completeness auto

termination transform_legacy
proof -
  have field_smaller: "size ft < size_list (size_prod (\<lambda>_. 0) size) fs"
    if "map_of fs a = Some ft" for fs :: "(string \<times> gtype) list" and a ft
    using that by (induction fs) (auto split: if_splits)
  show ?thesis
    by (relation "inv_image (less_than <*lex*> less_than)
          (\<lambda>x. case x of
               Inl (b, t, v) \<Rightarrow> (size t, 0)
             | Inr (Inl (b, t, xs)) \<Rightarrow> (size t, Suc (length xs))
             | Inr (Inr (b, m, fs, es, res)) \<Rightarrow>
                 (size_list (size_prod (\<lambda>_. 0) size) fs, Suc (length es)))")
       (auto dest: field_smaller)
qed

text \<open>
  The filter (lines 24 to 32) wraps every root mutation that comes from a procedure. The
  resolver (lines 133 to 141) hands
  \<^verbatim>\<open>resolve\<close> the fresh object \<^verbatim>\<open>{ input: transform(...) }\<close> when the field declares an
  \<^verbatim>\<open>input\<close> argument, and \<^verbatim>\<open>args\<close> otherwise.
\<close>

definition filter_legacy :: "scope \<Rightarrow> bool" where
  "filter_legacy sc = (isRootMutation sc \<and> pgFieldIntrospection_kind sc = Some ''procedure'')"

definition resolver_legacy ::
  "build \<Rightarrow> field \<Rightarrow> (string \<times> json) list \<Rightarrow> error + (string \<times> json) list"
where
  "resolver_legacy b fld args =
     (case map_of (field_args fld) ''input'' of
        Some inputArgType \<Rightarrow>
          (case transform_legacy b inputArgType (arg_value args ''input'') of
             Inl e \<Rightarrow> Inl e
           | Inr input' \<Rightarrow> Inr [(''input'', input')])
      | None \<Rightarrow> Inr args)"

definition mutation_legacy ::
  "build \<Rightarrow> scope \<Rightarrow> field \<Rightarrow> (string \<times> json) list \<Rightarrow> error + (string \<times> json) list"
where
  "mutation_legacy b sc fld args =
     (if filter_legacy sc then resolver_legacy b fld args else Inr args)"

section \<open>The schema substitution (ReplaceTypeWithPatchPlugin.ts)\<close>

text \<open>
  The hook on \<^verbatim>\<open>GraphQLInputObjectType:fields\<close> (lines 11 to 72). A field specification is its \<^verbatim>\<open>type\<close> (what
  \<^verbatim>\<open>getTypeByName\<close> returned, possibly \<^verbatim>\<open>undefined\<close>) and whatever else the builder attached, of
  which the description stands in the model. \<open>pgIntrospection_type_patch\<close> is
  \<^verbatim>\<open>pgIntrospection?.type?.tags?.patch\<close> of the hook's scope.
\<close>

record field_spec =
  spec_type :: "gtype option"
  spec_description :: "string option"

record hook_context =
  isMutationInput :: bool
  pgIntrospection_type_patch :: "tag option"
  GraphQLInputObjectType_name :: string

definition hookPatchTags :: "build \<Rightarrow> hook_context \<Rightarrow> tag option" where
  "hookPatchTags b ctx =
     (if isMutationInput ctx \<and> truthy (procPatch b (GraphQLInputObjectType_name ctx))
      then procPatch b (GraphQLInputObjectType_name ctx)
      else pgIntrospection_type_patch ctx)"

text \<open>The \<^verbatim>\<open>map\<close>: the inflected argument name and the name of the patch type of the table.\<close>

fun patchTypeNames :: "build \<Rightarrow> string list \<Rightarrow> error + (string \<times> string) list" where
  "patchTypeNames b [] = Inr []"
| "patchTypeNames b (fieldAndTable # rest) =
     (case findTable b fieldAndTable of
        Inl e \<Rightarrow> Inl e
      | Inr (arg, table) \<Rightarrow>
          (case tableType b table of
             Inl e \<Rightarrow> Inl e
           | Inr tableTypeName \<Rightarrow>
               (case patchTypeNames b rest of
                  Inl e \<Rightarrow> Inl e
                | Inr rest' \<Rightarrow> Inr ((argument b arg, patchType b tableTypeName) # rest'))))"

text \<open>The \<^verbatim>\<open>reduce\<close> that builds \<^verbatim>\<open>patchFields\<close>, one \<^verbatim>\<open>{ type: getTypeByName(patchType) }\<close> each.\<close>

fun reducePatchFields ::
  "build \<Rightarrow> (string \<times> string) list \<Rightarrow> (string \<times> field_spec) list \<Rightarrow> (string \<times> field_spec) list"
where
  "reducePatchFields b [] res = res"
| "reducePatchFields b ((mutationArg, patchTypeName) # rest) res =
     reducePatchFields b rest
       (AList.update mutationArg
          \<lparr>spec_type = getTypeByName b patchTypeName, spec_description = None\<rparr> res)"

text \<open>Object spread \<^verbatim>\<open>{ ...inputFields, ...patchFields }\<close>.\<close>

fun spread :: "('k \<times> 'v) list \<Rightarrow> ('k \<times> 'v) list \<Rightarrow> ('k \<times> 'v) list" where
  "spread obj [] = obj"
| "spread obj ((k, v) # rest) = spread (AList.update k v obj) rest"

definition ReplaceTypeWithPatchPlugin ::
  "build \<Rightarrow> hook_context \<Rightarrow> (string \<times> field_spec) list \<Rightarrow> error + (string \<times> field_spec) list"
where
  "ReplaceTypeWithPatchPlugin b ctx inputFields =
     (if truthy (hookPatchTags b ctx) \<and> stringOrObject (hookPatchTags b ctx) then
        (case patchTypeNames b (tagList (hookPatchTags b ctx)) of
           Inl e \<Rightarrow> Inl e
         | Inr names \<Rightarrow> Inr (spread inputFields (reducePatchFields b names [])))
      else Inr inputFields)"

section \<open>Notions used to state the properties\<close>

text \<open>
  The value that one iteration of the loop over the submitted entries gives to the
  property \<open>arg\<close>, in each version of the rewrite, and the results of a list of entries
  taken one by one (the first failure is the failure of the whole).
\<close>

definition transform_entry ::
  "build \<Rightarrow> patch_map \<Rightarrow> string \<Rightarrow> (string \<times> gtype) list \<Rightarrow> string \<Rightarrow> json \<Rightarrow> error + json"
where
  "transform_entry b patchMap name gqlFields arg val =
     (case map_of patchMap (getKey name arg) of
        Some table \<Rightarrow> newJson b table val
      | None \<Rightarrow>
          (case map_of gqlFields arg of
             None \<Rightarrow> Inl TypeError
           | Some inputFieldType \<Rightarrow> transform b patchMap inputFieldType val))"

definition legacy_entry ::
  "build \<Rightarrow> patch_map \<Rightarrow> (string \<times> gtype) list \<Rightarrow> string \<Rightarrow> json \<Rightarrow> error + json"
where
  "legacy_entry b argAndTable gqlFields arg val =
     (case map_of argAndTable arg of
        Some table \<Rightarrow> newJson b table val
      | None \<Rightarrow>
          (case map_of gqlFields arg of
             None \<Rightarrow> Inl TypeError
           | Some inputFieldType \<Rightarrow> transform_legacy b inputFieldType val))"

fun entry_results ::
  "(string \<Rightarrow> json \<Rightarrow> error + json) \<Rightarrow> (string \<times> json) list \<Rightarrow> error + (string \<times> json) list"
where
  "entry_results f [] = Inr []"
| "entry_results f ((arg, val) # rest) =
     (case f arg val of
        Inl e \<Rightarrow> Inl e
      | Inr val' \<Rightarrow>
          (case entry_results f rest of
             Inl e \<Rightarrow> Inl e
           | Inr rest' \<Rightarrow> Inr ((arg, val') # rest')))"

text \<open>
  \<^verbatim>\<open>k in v\<close> for an object \<open>v\<close> with the own properties \<open>kvs\<close>, and one step of the \<^verbatim>\<open>reduce\<close>
  over the attributes when the value is an object.
\<close>

definition in_object :: "string \<Rightarrow> (string \<times> json) list \<Rightarrow> bool" where
  "in_object k kvs = (k \<in> fst ` set kvs \<or> k \<in> set objectPrototype)"

definition keep_attr ::
  "build \<Rightarrow> (string \<times> json) list \<Rightarrow> pg_attribute \<Rightarrow> (string \<times> json) list \<Rightarrow> (string \<times> json) list"
where
  "keep_attr b kvs attr obj =
     (if in_object (column b attr) kvs
      then AList.update (attr_name attr) (get_prop b (JObj kvs) (column b attr)) obj
      else obj)"


text \<open>
  The named types of a type tree with their kinds; the annotation strings that pass the
  guard of part 000 for a type name; the pairs (inflected argument name, table) of a
  list of annotations, failing when an annotation has no second token; and the table
  that the last annotation of a type name for an argument gives.
\<close>

fun nodes :: "gtype \<Rightarrow> (kind \<times> string) set"
  and nodes_fields :: "(string \<times> gtype) list \<Rightarrow> (kind \<times> string) set"
where
  "nodes (ListType ofType) = nodes ofType"
| "nodes (NonNullType ofType) = nodes ofType"
| "nodes (ObjectLike k name gqlFields) = insert (k, name) (nodes_fields gqlFields)"
| "nodes (OtherType _) = {}"
| "nodes_fields [] = {}"
| "nodes_fields ((fieldName, fieldType) # rest) = nodes fieldType \<union> nodes_fields rest"

definition annotations :: "build \<Rightarrow> string \<Rightarrow> string list" where
  "annotations b name =
     (if truthy (patchTags b name) \<and> stringOrObject (patchTags b name)
      then tagList (patchTags b name) else [])"

fun annotation_pairs :: "build \<Rightarrow> string list \<Rightarrow> error + (string \<times> pg_class option) list" where
  "annotation_pairs b [] = Inr []"
| "annotation_pairs b (fieldAndTable # rest) =
     (case findTable b fieldAndTable of
        Inl e \<Rightarrow> Inl e
      | Inr (arg, table) \<Rightarrow>
          (case annotation_pairs b rest of
             Inl e \<Rightarrow> Inl e
           | Inr pairs \<Rightarrow> Inr ((argument b arg, table) # pairs)))"

definition patch_lookup :: "build \<Rightarrow> string \<Rightarrow> string \<Rightarrow> pg_class option option" where
  "patch_lookup b name arg =
     (case annotation_pairs b (annotations b name) of
        Inl e \<Rightarrow> None
      | Inr pairs \<Rightarrow> map_of (rev pairs) arg)"

text \<open>
  GraphQL names are made of letters, digits and underscores: in particular they have no
  vertical bar, the separator of \<open>getKey\<close>.
\<close>

definition bar_free :: "string \<Rightarrow> bool" where
  "bar_free name = (CHR ''|'' \<notin> set name)"

text \<open>What the patch map holds for the input object types among a set of named types.\<close>

definition input_lookup :: "build \<Rightarrow> (kind \<times> string) set \<Rightarrow> string \<Rightarrow> string \<Rightarrow> pg_class option option" where
  "input_lookup b N n a = (if (InputObjectType, n) \<in> N then patch_lookup b n a else None)"

text \<open>
  The shape that GraphQL's coercion of input values guarantees: at a position whose type
  has fields the value is an object (with distinct keys), \<^verbatim>\<open>null\<close> or absent, and the
  values of its declared fields conform to their types; the elements of an array at a
  list position conform to the item type.
\<close>

function conforms :: "gtype \<Rightarrow> json \<Rightarrow> bool"
  and conforms_items :: "gtype \<Rightarrow> json list \<Rightarrow> bool"
  and conforms_entries :: "(string \<times> gtype) list \<Rightarrow> (string \<times> json) list \<Rightarrow> bool"
where
  "conforms (ListType ofType) v = (case v of JArr listItems \<Rightarrow> conforms_items ofType listItems | _ \<Rightarrow> True)"
| "conforms (NonNullType ofType) v = conforms ofType v"
| "conforms (ObjectLike k name gqlFields) v =
     (case v of
        JObj kvs \<Rightarrow> distinct (map fst kvs) \<and> conforms_entries gqlFields kvs
      | JNull \<Rightarrow> True
      | JUndefined \<Rightarrow> True
      | _ \<Rightarrow> False)"
| "conforms (OtherType _) v = True"
| "conforms_items ofType [] = True"
| "conforms_items ofType (listItem # rest) = (conforms ofType listItem \<and> conforms_items ofType rest)"
| "conforms_entries gqlFields [] = True"
| "conforms_entries gqlFields ((arg, val) # rest) =
     ((case map_of gqlFields arg of None \<Rightarrow> True | Some inputFieldType \<Rightarrow> conforms inputFieldType val)
      \<and> conforms_entries gqlFields rest)"
  by pat_completeness auto

termination conforms
proof -
  have field_smaller: "size ft < size_list (size_prod (\<lambda>_. 0) size) fs"
    if "map_of fs a = Some ft" for fs :: "(string \<times> gtype) list" and a ft
    using that by (induction fs) (auto split: if_splits)
  show ?thesis
    by (relation "inv_image (less_than <*lex*> less_than)
          (\<lambda>x. case x of
               Inl (t, v) \<Rightarrow> (size t, 0)
             | Inr (Inl (t, xs)) \<Rightarrow> (size t, Suc (length xs))
             | Inr (Inr (fs, es)) \<Rightarrow>
                 (size_list (size_prod (\<lambda>_. 0) size) fs, Suc (length es)))")
       (auto dest: field_smaller)
qed



text \<open>
  The patch map of part 000 agrees with the map that the other version builds at a type.
\<close>

definition agrees :: "build \<Rightarrow> patch_map \<Rightarrow> kind \<Rightarrow> string \<Rightarrow> bool" where
  "agrees b pm k n =
     (\<exists>m. patchArgAndTableMap b k n = Inr m \<and> (\<forall>a. map_of pm (getKey n a) = map_of m a))"

text \<open>
  The names of a type tree are valid when they have no vertical bar and a name stands
  for one kind of type, as in a GraphQL schema, where a name stands for one type.
\<close>

definition valid_names :: "gtype \<Rightarrow> bool" where
  "valid_names t =
     ((\<forall>(k, n) \<in> nodes t. bar_free n)
      \<and> (\<forall>(k, n) \<in> nodes t. \<forall>(k', n') \<in> nodes t. n = n' \<longrightarrow> k = k'))"

text \<open>
  A value is well shaped for a type when the rewrite finds what it dereferences: at a
  position whose type has fields the value is an object; each of its keys is either
  matched by an annotation, then the table is resolved and the value is one on which
  \<^verbatim>\<open>in\<close> is defined (an object or an array), or it is a declared field of the type and its
  value is well shaped for the type of the field. \<open>look k name arg\<close> is what the version
  of the rewrite looks up for the field \<open>arg\<close> of the type \<open>name\<close>.
\<close>

fun objectish :: "json \<Rightarrow> bool" where
  "objectish (JObj _) = True"
| "objectish (JArr _) = True"
| "objectish _ = False"

function shaped :: "(kind \<Rightarrow> string \<Rightarrow> string \<Rightarrow> pg_class option option) \<Rightarrow> gtype \<Rightarrow> json \<Rightarrow> bool"
  and shaped_items ::
    "(kind \<Rightarrow> string \<Rightarrow> string \<Rightarrow> pg_class option option) \<Rightarrow> gtype \<Rightarrow> json list \<Rightarrow> bool"
  and shaped_entries ::
    "(kind \<Rightarrow> string \<Rightarrow> string \<Rightarrow> pg_class option option) \<Rightarrow> kind \<Rightarrow> string \<Rightarrow>
       (string \<times> gtype) list \<Rightarrow> (string \<times> json) list \<Rightarrow> bool"
where
  "shaped look (ListType ofType) v =
     (case v of JArr listItems \<Rightarrow> shaped_items look ofType listItems | _ \<Rightarrow> True)"
| "shaped look (NonNullType ofType) v = shaped look ofType v"
| "shaped look (ObjectLike k name gqlFields) v =
     (case v of JObj kvs \<Rightarrow> shaped_entries look k name gqlFields kvs | _ \<Rightarrow> False)"
| "shaped look (OtherType _) v = True"
| "shaped_items look ofType [] = True"
| "shaped_items look ofType (listItem # rest) =
     (shaped look ofType listItem \<and> shaped_items look ofType rest)"
| "shaped_entries look k name gqlFields [] = True"
| "shaped_entries look k name gqlFields ((arg, val) # rest) =
     ((case look k name arg of
         Some table \<Rightarrow> table \<noteq> None \<and> objectish val
       | None \<Rightarrow>
           (case map_of gqlFields arg of
              None \<Rightarrow> False
            | Some inputFieldType \<Rightarrow> shaped look inputFieldType val))
      \<and> shaped_entries look k name gqlFields rest)"
  by pat_completeness auto

termination shaped
proof -
  have field_smaller: "size ft < size_list (size_prod (\<lambda>_. 0) size) fs"
    if "map_of fs a = Some ft" for fs :: "(string \<times> gtype) list" and a ft
    using that by (induction fs) (auto split: if_splits)
  show ?thesis
    by (relation "inv_image (less_than <*lex*> less_than)
          (\<lambda>x. case x of
               Inl (l, t, v) \<Rightarrow> (size t, 0)
             | Inr (Inl (l, t, xs)) \<Rightarrow> (size t, Suc (length xs))
             | Inr (Inr (l, k, n, fs, es)) \<Rightarrow>
                 (size_list (size_prod (\<lambda>_. 0) size) fs, Suc (length es)))")
       (auto dest: field_smaller)
qed

definition precomputed_look :: "patch_map \<Rightarrow> kind \<Rightarrow> string \<Rightarrow> string \<Rightarrow> pg_class option option" where
  "precomputed_look patchMap k name arg = map_of patchMap (getKey name arg)"

definition legacy_look :: "build \<Rightarrow> kind \<Rightarrow> string \<Rightarrow> string \<Rightarrow> pg_class option option" where
  "legacy_look b k name arg =
     (case patchArgAndTableMap b k name of Inl e \<Rightarrow> None | Inr m \<Rightarrow> map_of m arg)"

text \<open>
  The condition as claim C10 words it: each key of each object at a position whose type
  has fields is a declared field of that type.
\<close>

function keys_declared :: "gtype \<Rightarrow> json \<Rightarrow> bool"
  and keys_declared_items :: "gtype \<Rightarrow> json list \<Rightarrow> bool"
  and keys_declared_entries :: "(string \<times> gtype) list \<Rightarrow> (string \<times> json) list \<Rightarrow> bool"
where
  "keys_declared (ListType ofType) v =
     (case v of JArr listItems \<Rightarrow> keys_declared_items ofType listItems | _ \<Rightarrow> True)"
| "keys_declared (NonNullType ofType) v = keys_declared ofType v"
| "keys_declared (ObjectLike k name gqlFields) v =
     (case v of JObj kvs \<Rightarrow> keys_declared_entries gqlFields kvs | _ \<Rightarrow> True)"
| "keys_declared (OtherType _) v = True"
| "keys_declared_items ofType [] = True"
| "keys_declared_items ofType (listItem # rest) =
     (keys_declared ofType listItem \<and> keys_declared_items ofType rest)"
| "keys_declared_entries gqlFields [] = True"
| "keys_declared_entries gqlFields ((arg, val) # rest) =
     ((case map_of gqlFields arg of
         None \<Rightarrow> False
       | Some inputFieldType \<Rightarrow> keys_declared inputFieldType val)
      \<and> keys_declared_entries gqlFields rest)"
  by pat_completeness auto

termination keys_declared
proof -
  have field_smaller: "size ft < size_list (size_prod (\<lambda>_. 0) size) fs"
    if "map_of fs a = Some ft" for fs :: "(string \<times> gtype) list" and a ft
    using that by (induction fs) (auto split: if_splits)
  show ?thesis
    by (relation "inv_image (less_than <*lex*> less_than)
          (\<lambda>x. case x of
               Inl (t, v) \<Rightarrow> (size t, 0)
             | Inr (Inl (t, xs)) \<Rightarrow> (size t, Suc (length xs))
             | Inr (Inr (fs, es)) \<Rightarrow>
                 (size_list (size_prod (\<lambda>_. 0) size) fs, Suc (length es)))")
       (auto dest: field_smaller)
qed

section \<open>The example of the source's header comment\<close>

text \<open>
  \<^verbatim>\<open>create table entity_table( first_column int, second_column int )\<close>,
  \<^verbatim>\<open>create function update_entity(id uuid, patch json)\<close>,
  \<^verbatim>\<open>comment on function update_entity() is E'@patch patch schema.entity_table'\<close>,
  with PostGraphile's naming: camel case for columns and arguments, and an inflector
  \<^verbatim>\<open>tableType\<close> that reads \<^verbatim>\<open>table.tags\<close> and so throws when the table is \<^verbatim>\<open>undefined\<close>.
\<close>

definition entity_table :: pg_class where
  "entity_table = \<lparr>class_namespace = Some ''schema'', class_name = ''entity_table'',
     class_attributes = [\<lparr>attr_name = ''first_column'', attr_num = 1\<rparr>,
                         \<lparr>attr_name = ''second_column'', attr_num = 2\<rparr>]\<rparr>"

text \<open>
  The engine of the example: the members of \<^verbatim>\<open>Array.prototype\<close> are those of ECMAScript
  2017, and of a built-in the example knows the members that every object inherits from
  \<^verbatim>\<open>Object.prototype\<close>. No evaluation below reads either.
\<close>

definition es2017_arrayPrototype :: "string list" where
  "es2017_arrayPrototype =
     [''constructor'', ''concat'', ''copyWithin'', ''fill'', ''find'', ''findIndex'',
      ''lastIndexOf'', ''pop'', ''push'', ''reverse'', ''shift'', ''unshift'', ''slice'',
      ''sort'', ''splice'', ''includes'', ''indexOf'', ''join'', ''keys'', ''entries'',
      ''values'', ''forEach'', ''filter'', ''map'', ''every'', ''some'', ''reduce'',
      ''reduceRight'', ''toLocaleString'', ''toString'']"

definition EntityTablePatch :: gtype where
  "EntityTablePatch = ObjectLike InputObjectType ''EntityTablePatch''
     [(''firstColumn'', OtherType ''Int''), (''secondColumn'', OtherType ''Int'')]"

definition example_build :: build where
  "example_build = \<lparr>
     procedure = [\<lparr>proc_name = ''update_entity'',
                   proc_patch = Some (TagStr ''patch schema.entity_table'')\<rparr>],
     pgType = [],
     pgClass = [entity_table],
     functionInputType = (\<lambda>p. if proc_name p = ''update_entity'' then ''UpdateEntityInput'' else []),
     inputType = (\<lambda>s. s @ ''Input''),
     domainType = type_name,
     argument = (\<lambda>s. s),
     column = (\<lambda>a. if attr_name a = ''first_column'' then ''firstColumn''
                    else if attr_name a = ''second_column'' then ''secondColumn''
                    else attr_name a),
     tableType = (\<lambda>t. case t of None \<Rightarrow> Inl TypeError | Some c \<Rightarrow> Inr ''EntityTable''),
     patchType = (\<lambda>s. s @ ''Patch''),
     getTypeByName = (\<lambda>s. if s = ''EntityTablePatch'' then Some EntityTablePatch else None),
     arrayPrototype = es2017_arrayPrototype,
     nativeIn = (\<lambda>n k. k \<in> set objectPrototype),
     nativeGet = (\<lambda>n k. if k \<in> set objectPrototype then ANative (Builtin k) else AUndefined)\<rparr>"

definition UpdateEntityInput :: gtype where
  "UpdateEntityInput = ObjectLike InputObjectType ''UpdateEntityInput''
     [(''id'', OtherType ''UUID''), (''patch'', EntityTablePatch)]"

definition example_scope :: scope where
  "example_scope = \<lparr>isRootMutation = True, pgFieldIntrospection_kind = Some ''procedure''\<rparr>"

definition example_field :: field where
  "example_field = \<lparr>field_args = [(''input'', NonNullType UpdateEntityInput)]\<rparr>"

definition example_input :: json where
  "example_input = JObj [(''id'', JStr ''u1''),
     (''patch'', JObj [(''firstColumn'', JNum 1), (''secondColumn'', JNum 2)])]"

definition example_rewritten :: json where
  "example_rewritten = JObj [(''id'', JStr ''u1''),
     (''patch'', JObj [(''first_column'', JNum 1), (''second_column'', JNum 2)])]"

text \<open>
  The field list of \<^verbatim>\<open>UpdateEntityInput\<close> before the substitution, the hook's context for it,
  and the context of an input type generated from a composite type whose annotation
  names an argument \<^verbatim>\<open>missing\<close> that the type does not have.
\<close>

definition example_fields :: "(string \<times> field_spec) list" where
  "example_fields =
     [(''id'', \<lparr>spec_type = Some (OtherType ''UUID''), spec_description = Some ''the id''\<rparr>),
      (''patch'', \<lparr>spec_type = Some (OtherType ''JSON''), spec_description = Some ''the patch''\<rparr>)]"

definition example_context :: hook_context where
  "example_context = \<lparr>isMutationInput = True, pgIntrospection_type_patch = None,
     GraphQLInputObjectType_name = ''UpdateEntityInput''\<rparr>"

definition composite_context :: hook_context where
  "composite_context = \<lparr>isMutationInput = False,
     pgIntrospection_type_patch = Some (TagStr ''missing schema.entity_table''),
     GraphQLInputObjectType_name = ''EntityUpdateTypeInput''\<rparr>"





text \<open>The same procedure with a bare \<^verbatim>\<open>@patch\<close> tag, which PostGraphile reads as \<^verbatim>\<open>true\<close>.\<close>

definition bare_build :: build where
  "bare_build = example_build
     \<lparr>procedure := [\<lparr>proc_name = ''update_entity'', proc_patch = Some TagTrue\<rparr>]\<rparr>"











text \<open>
  The patch map that part 000 precomputes for the example, and the example's input
  after two applications of the rewrite.
\<close>

definition example_patch_map :: patch_map where
  "example_patch_map = [(getKey ''UpdateEntityInput'' ''patch'', Some entity_table)]"

definition example_twice :: json where
  "example_twice = JObj [(''id'', JStr ''u1''), (''patch'', JObj [])]"

text \<open>
  A mutation of a procedure without any annotation, whose input has a nullable field
  of a composite type, with a submitted input and one that sets that field to \<^verbatim>\<open>null\<close>.
\<close>

definition CreateThingInput :: gtype where
  "CreateThingInput = ObjectLike InputObjectType ''CreateThingInput''
     [(''name'', OtherType ''String''),
      (''owner'', ObjectLike InputObjectType ''OwnerInput'' [(''id'', OtherType ''UUID'')])]"

definition plain_field :: field where
  "plain_field = \<lparr>field_args = [(''input'', NonNullType CreateThingInput)]\<rparr>"

definition plain_input :: json where
  "plain_input = JObj [(''name'', JStr ''n''), (''owner'', JObj [(''id'', JStr ''o1'')])]"

definition null_owner_input :: json where
  "null_owner_input = JObj [(''name'', JStr ''n''), (''owner'', JNull)]"

text \<open>The example's input with \<^verbatim>\<open>null\<close> for the nullable field \<^verbatim>\<open>patch\<close>.\<close>

definition null_patch_input :: json where
  "null_patch_input = JObj [(''id'', JStr ''u1''), (''patch'', JNull)]"

section \<open>The worked example\<close>

text \<open>
  Claim C1. For a mutation procedure annotated with \<^verbatim>\<open>@patch patch schema.entity_table\<close>,
  where the table resolves and has the attributes \<^verbatim>\<open>first_column\<close> and \<^verbatim>\<open>second_column\<close> with
  the inflected names \<^verbatim>\<open>firstColumn\<close> and \<^verbatim>\<open>secondColumn\<close>, the runtime rewrite of
  \<^verbatim>\<open>{ id: "u1", patch: { firstColumn: 1, secondColumn: 2 } }\<close> is
  \<^verbatim>\<open>{ id: "u1", patch: { first_column: 1, second_column: 2 } }\<close>, in both versions of the
  rewrite, whatever the remaining inflectors and introspection results are.
\<close>

theorem single_level_rewrite:
  assumes sc: "isRootMutation sc" "pgFieldIntrospection_kind sc = Some ''procedure''"
    and fld: "field_args fld =
       [(''input'', NonNullType (ObjectLike InputObjectType inputName
           [(''id'', OtherType idType),
            (''patch'', ObjectLike InputObjectType patchName
                [(''firstColumn'', OtherType c1), (''secondColumn'', OtherType c2)])]))]"
    and proc: "procPatch b inputName = Some (TagStr ''patch schema.entity_table'')"
    and nopatch: "\<not> truthy (patchTags b patchName)"
    and tbl: "find (\<lambda>t. class_namespace t = Some ''schema'' \<and> class_name t = ''entity_table'')
                (pgClass b) = Some table"
    and attrs: "map attr_name (class_attributes table) = [''first_column'', ''second_column'']"
    and cols: "map (column b) (class_attributes table) = [''firstColumn'', ''secondColumn'']"
    and arg: "argument b ''patch'' = ''patch''"
  shows "mutation_precomputed b sc fld [(''input'', example_input)]
           = Inr [(''input'', example_rewritten)]
       \<and> mutation_legacy b sc fld [(''input'', example_input)]
           = Inr [(''input'', example_rewritten)]"
proof -
  from attrs cols obtain a1 a2 where as: "class_attributes table = [a1, a2]"
    "attr_name a1 = ''first_column''" "attr_name a2 = ''second_column''"
    "column b a1 = ''firstColumn''" "column b a2 = ''secondColumn''"
    by (cases "class_attributes table") auto
  have pt: "patchTags b inputName = Some (TagStr ''patch schema.entity_table'')"
    using proc by (simp add: patchTags_def)
  have ft: "findTable b ''patch schema.entity_table'' = Inr (''patch'', Some table)"
    using tbl by (simp add: findTable_def)
  have pm: "populatePatchMap b (NonNullType (ObjectLike InputObjectType inputName
           [(''id'', OtherType idType),
            (''patch'', ObjectLike InputObjectType patchName
                [(''firstColumn'', OtherType c1), (''secondColumn'', OtherType c2)])])) []
       = Inr [(getKey inputName ''patch'', Some table)]"
    using pt nopatch ft arg by simp
  have k: "getKey inputName ''id'' \<noteq> getKey inputName ''patch''"
    by (simp add: getKey_def)
  have nj: "newJson b (Some table) (JObj [(''firstColumn'', JNum 1), (''secondColumn'', JNum 2)])
      = Inr (JObj [(''first_column'', JNum 1), (''second_column'', JNum 2)])"
    using as by (simp add: newJson_def)
  have 1: "mutation_precomputed b sc fld [(''input'', example_input)]
      = Inr [(''input'', example_rewritten)]"
    using sc fld pm k nj
    by (simp add: mutation_precomputed_def filter_precomputed_def resolver_precomputed_def
        arg_value_def example_input_def example_rewritten_def)
  have am: "patchArgAndTableMap b InputObjectType inputName = Inr [(''patch'', Some table)]"
    using pt ft arg by (simp add: patchArgAndTableMap_def)
  have 2: "mutation_legacy b sc fld [(''input'', example_input)]
      = Inr [(''input'', example_rewritten)]"
    using sc fld am nj
    by (simp add: mutation_legacy_def filter_legacy_def resolver_legacy_def arg_value_def
        example_input_def example_rewritten_def)
  from 1 2 show ?thesis by simp
qed

theorem single_level_rewrite_witness:
  "mutation_precomputed example_build example_scope example_field [(''input'', example_input)]
     = Inr [(''input'', example_rewritten)]
   \<and> mutation_legacy example_build example_scope example_field [(''input'', example_input)]
     = Inr [(''input'', example_rewritten)]"
  using single_level_rewrite [of example_scope example_field "''UpdateEntityInput''" "''UUID''"
      "''EntityTablePatch''" "''Int''" "''Int''" example_build entity_table]
  by (simp add: example_scope_def example_field_def UpdateEntityInput_def EntityTablePatch_def
      example_build_def entity_table_def procPatch_def typePatch_def patchTags_def)


section \<open>The loop over the submitted entries\<close>

text \<open>
  On an object whose keys are distinct, each version of the rewrite gives every property
  the value of its own iteration and keeps the order of the keys.
\<close>

lemma update_in_place:
  "k \<notin> fst ` set pre \<Longrightarrow> AList.update k x (pre @ (k, v) # post) = pre @ (k, x) # post"
  by (induction pre) auto

lemma update_fresh:
  "k \<notin> fst ` set res \<Longrightarrow> AList.update k x res = res @ [(k, x)]"
  by (induction res) auto

lemma transform_entries_step:
  "transform_entries b pm n fs ((a, v) # es) (JObj cur) =
     (case transform_entry b pm n fs a v of
        Inl e \<Rightarrow> Inl e
      | Inr x \<Rightarrow> transform_entries b pm n fs es (JObj (AList.update a x cur)))"
  by (simp add: transform_entry_def split: option.splits sum.splits)

lemma reduce_legacy_step:
  "reduce_legacy b m fs ((a, v) # es) res =
     (case legacy_entry b m fs a v of
        Inl e \<Rightarrow> Inl e
      | Inr x \<Rightarrow> reduce_legacy b m fs es (AList.update a x res))"
  by (simp add: legacy_entry_def split: option.splits sum.splits)

lemma transform_entries_results:
  "distinct (map fst (pre @ es)) \<Longrightarrow>
   transform_entries b pm n fs es (JObj (pre @ es)) =
     (case entry_results (transform_entry b pm n fs) es of
        Inl e \<Rightarrow> Inl e | Inr r \<Rightarrow> Inr (JObj (pre @ r)))"
proof (induction es arbitrary: pre)
  case Nil
  then show ?case by simp
next
  case (Cons p es)
  obtain a v where p: "p = (a, v)" by (cases p)
  from Cons.prems p have fresh: "a \<notin> fst ` set pre" and d: "\<And>x. distinct (map fst ((pre @ [(a, x)]) @ es))"
    by auto
  have step: "\<And>x. transform_entries b pm n fs es (JObj (pre @ (a, x) # es)) =
     (case entry_results (transform_entry b pm n fs) es of
        Inl e \<Rightarrow> Inl e | Inr r \<Rightarrow> Inr (JObj (pre @ (a, x) # r)))"
    using Cons.IH [OF d] by (simp split: sum.splits)
  show ?case
    unfolding p
    by (simp only: transform_entries_step update_in_place [OF fresh] step entry_results.simps)
       (simp split: sum.splits)
qed

lemma transform_object:
  "distinct (map fst kvs) \<Longrightarrow>
   transform b pm (ObjectLike k n fs) (JObj kvs) =
     (case entry_results (transform_entry b pm n fs) kvs of
        Inl e \<Rightarrow> Inl e | Inr r \<Rightarrow> Inr (JObj r))"
  using transform_entries_results [of "[]" kvs b pm n fs] by (simp split: sum.splits)

lemma reduce_legacy_results:
  "distinct (map fst (res @ es)) \<Longrightarrow>
   reduce_legacy b m fs es res =
     (case entry_results (legacy_entry b m fs) es of
        Inl e \<Rightarrow> Inl e | Inr r \<Rightarrow> Inr (res @ r))"
proof (induction es arbitrary: res)
  case Nil
  then show ?case by simp
next
  case (Cons p es)
  obtain a v where p: "p = (a, v)" by (cases p)
  from Cons.prems p have fresh: "a \<notin> fst ` set res" and d: "\<And>x. distinct (map fst ((res @ [(a, x)]) @ es))"
    by auto
  have step: "\<And>x. reduce_legacy b m fs es (res @ [(a, x)]) =
     (case entry_results (legacy_entry b m fs) es of
        Inl e \<Rightarrow> Inl e | Inr r \<Rightarrow> Inr (res @ (a, x) # r))"
    using Cons.IH [OF d] by (simp split: sum.splits)
  show ?case
    unfolding p
    by (simp only: reduce_legacy_step update_fresh [OF fresh] step entry_results.simps)
       (simp split: sum.splits)
qed

lemma transform_legacy_object:
  "distinct (map fst kvs) \<Longrightarrow>
   transform_legacy b (ObjectLike k n fs) (JObj kvs) =
     (case patchArgAndTableMap b k n of
        Inl e \<Rightarrow> Inl e
      | Inr m \<Rightarrow> (case entry_results (legacy_entry b m fs) kvs of
        Inl e \<Rightarrow> Inl e | Inr r \<Rightarrow> Inr (JObj r)))"
  using reduce_legacy_results [of "[]" kvs b _ fs]
  by (simp split: sum.splits)

lemma entry_results_keys:
  "entry_results f es = Inr r \<Longrightarrow> map fst r = map fst es"
  by (induction es arbitrary: r) (auto split: sum.splits)

lemma entry_results_lookup:
  "entry_results f es = Inr r \<Longrightarrow> distinct (map fst es) \<Longrightarrow> (a, v) \<in> set es \<Longrightarrow>
     \<exists>x. f a v = Inr x \<and> map_of r a = Some x"
  by (induction es arbitrary: r) (auto split: sum.splits simp: rev_image_eqI)

section \<open>The object built for a matched field\<close>

lemma reduceAttributes_object:
  "reduceAttributes b attrs (JObj kvs) obj = Inr (fold (keep_attr b kvs) attrs obj)"
  by (induction attrs arbitrary: obj) (simp_all add: keep_attr_def in_object_def)













section \<open>Lists\<close>












section \<open>The schema substitution\<close>

lemma update_keys:
  "map fst (AList.update k v al) = (if k \<in> fst ` set al then map fst al else map fst al @ [k])"
  by (induction al) auto

lemma spread_map_of: "map_of (spread obj rest) = map_of obj ++ map_of (rev rest)"
  by (induction obj rest rule: spread.induct)
     (auto simp: update_conv' map_add_def fun_eq_iff split: option.splits)

text \<open>
  The hook in general: when every annotation of the declaration has its two tokens and
  the inflector names the type of its table, each field named by an annotation gets the
  patch type of the last annotation that names it, every other field is unchanged, and
  the names of the fields are the former ones and those of the annotations. When a
  table does not resolve, the outcome is that of the inflector \<^verbatim>\<open>tableType\<close> on
  \<^verbatim>\<open>undefined\<close>.
\<close>

lemma reducePatchFields_map_of:
  "map_of (reducePatchFields b names res) =
     map_of res ++ map_of (rev (map (\<lambda>(f, pt). (f, \<lparr>spec_type = getTypeByName b pt, spec_description = None\<rparr>)) names))"
  by (induction b names res rule: reducePatchFields.induct)
     (auto simp: update_conv' map_add_def fun_eq_iff split: option.splits)

lemma reducePatchFields_distinct:
  "distinct (map fst res) \<Longrightarrow> distinct (map fst (reducePatchFields b names res))"
  by (induction b names res rule: reducePatchFields.induct) (auto simp: distinct_update)

lemma reducePatchFields_keys:
  "fst ` set (reducePatchFields b names res) = fst ` set res \<union> fst ` set names"
  by (induction b names res rule: reducePatchFields.induct) (auto simp: dom_update)

lemma spread_keys: "fst ` set (spread obj rest) = fst ` set obj \<union> fst ` set rest"
  by (induction obj rest rule: spread.induct) (auto simp: dom_update)

lemma map_of_rev_distinct:
  "distinct (map fst xs) \<Longrightarrow> map_of (rev xs) = map_of xs"
proof (induction xs)
  case Nil
  then show ?case by simp
next
  case (Cons x xs)
  then have "map_of xs (fst x) = None"
    by (simp add: map_of_eq_None_iff)
  with Cons show ?case
    by (cases x) (auto simp: fun_eq_iff map_add_def split: option.splits)
qed

lemma substitution_fields:
  assumes "truthy (hookPatchTags b ctx)" "stringOrObject (hookPatchTags b ctx)"
    and "patchTypeNames b (tagList (hookPatchTags b ctx)) = Inr names"
  shows "\<exists>fields'. ReplaceTypeWithPatchPlugin b ctx inputFields = Inr fields'
     \<and> (\<forall>f. map_of fields' f =
           (case map_of (rev names) f of
              None \<Rightarrow> map_of inputFields f
            | Some pt \<Rightarrow> Some \<lparr>spec_type = getTypeByName b pt, spec_description = None\<rparr>))
     \<and> fst ` set fields' = fst ` set inputFields \<union> fst ` set names"
proof -
  let ?pf = "reducePatchFields b names []"
  let ?spec = "\<lambda>(f, pt). (f, \<lparr>spec_type = getTypeByName b pt, spec_description = None\<rparr>)"
  have r: "ReplaceTypeWithPatchPlugin b ctx inputFields = Inr (spread inputFields ?pf)"
    using assms by (simp add: ReplaceTypeWithPatchPlugin_def)
  have d: "distinct (map fst ?pf)" by (rule reducePatchFields_distinct) simp
  have "map_of (rev ?pf) = map_of ?pf"
    using d by (rule map_of_rev_distinct)
  then have m: "map_of (spread inputFields ?pf) = map_of inputFields ++ map_of (rev (map ?spec names))"
    by (simp add: spread_map_of reducePatchFields_map_of)
  have l: "map_of (rev (map ?spec names)) f =
      (case map_of (rev names) f of None \<Rightarrow> None
       | Some pt \<Rightarrow> Some \<lparr>spec_type = getTypeByName b pt, spec_description = None\<rparr>)" for f
    by (induction names) (auto simp: map_add_def split: option.splits)
  have k: "fst ` set (spread inputFields ?pf) = fst ` set inputFields \<union> fst ` set names"
    by (simp add: spread_keys reducePatchFields_keys)
  show ?thesis
    unfolding r using m l k by (auto simp: map_add_def split: option.splits)
qed

lemma substitution_unresolved:
  assumes "hookPatchTags b ctx = Some (TagStr fieldAndTable)"
    and "findTable b fieldAndTable = Inr (arg, None)"
  shows "ReplaceTypeWithPatchPlugin b ctx inputFields =
     (case tableType b None of
        Inl e \<Rightarrow> Inl e
      | Inr tableTypeName \<Rightarrow>
          Inr (AList.update (argument b arg)
                 \<lparr>spec_type = getTypeByName b (patchType b tableTypeName), spec_description = None\<rparr>
                 inputFields))"
proof -
  from assms(2) have "fieldAndTable \<noteq> []" by (auto simp: findTable_def)
  with assms show ?thesis
    by (simp add: ReplaceTypeWithPatchPlugin_def split: sum.splits)
qed

text \<open>
  Against claim C3 as stated: an annotation whose inflected name matches no field of the
  type is not inert. The spread \<^verbatim>\<open>{ ...inputFields, ...patchFields }\<close> adds a field of that
  name, here \<^verbatim>\<open>missing\<close>, with the patch type of the table.
\<close>

theorem missing_field_counterexample:
  "''missing'' \<notin> fst ` set example_fields
   \<and> ReplaceTypeWithPatchPlugin example_build composite_context example_fields =
       Inr (example_fields @
            [(''missing'', \<lparr>spec_type = Some EntityTablePatch, spec_description = None\<rparr>)])"
  by (simp add: ReplaceTypeWithPatchPlugin_def hookPatchTags_def composite_context_def
      example_fields_def findTable_def example_build_def entity_table_def)

text \<open>
  Claim C3, amended. For an input object type whose patch tag is one well-formed
  annotation \<^verbatim>\<open>arg ns.tbl\<close> whose table resolves, the substitution returns the field list in
  which the field named \<open>argument b arg\<close> has the looked-up patch type (and nothing else
  of its former specification), and every other field is unchanged. The order of the
  fields is kept when a field of that name exists; when none exists, a new field of
  that name is appended to the list. Lemma \<open>substitution_fields\<close> above is the case of
  several annotations.
\<close>

theorem single_annotation_substitution:
  assumes tags: "hookPatchTags b ctx = Some (TagStr fieldAndTable)"
    and found: "findTable b fieldAndTable = Inr (arg, Some table)"
    and tt: "tableType b (Some table) = Inr tableTypeName"
  shows "\<exists>fields'. ReplaceTypeWithPatchPlugin b ctx inputFields = Inr fields'
     \<and> map_of fields' (argument b arg) =
          Some \<lparr>spec_type = getTypeByName b (patchType b tableTypeName), spec_description = None\<rparr>
     \<and> (\<forall>f. f \<noteq> argument b arg \<longrightarrow> map_of fields' f = map_of inputFields f)
     \<and> map fst fields' =
          (if argument b arg \<in> fst ` set inputFields then map fst inputFields
           else map fst inputFields @ [argument b arg])"
proof -
  from found have ne: "fieldAndTable \<noteq> []"
    by (auto simp: findTable_def)
  have "ReplaceTypeWithPatchPlugin b ctx inputFields =
      Inr (AList.update (argument b arg)
        \<lparr>spec_type = getTypeByName b (patchType b tableTypeName), spec_description = None\<rparr> inputFields)"
    using tags found tt ne by (simp add: ReplaceTypeWithPatchPlugin_def)
  then show ?thesis
    by (simp add: update_conv' update_keys)
qed

theorem single_annotation_substitution_witness:
  "\<exists>fields'. ReplaceTypeWithPatchPlugin example_build example_context example_fields = Inr fields'
     \<and> map_of fields' ''patch'' = Some \<lparr>spec_type = Some EntityTablePatch, spec_description = None\<rparr>
     \<and> map_of fields' ''id'' = map_of example_fields ''id''
     \<and> map fst fields' = [''id'', ''patch'']"
proof -
  have tags: "hookPatchTags example_build example_context = Some (TagStr ''patch schema.entity_table'')"
    by (simp add: hookPatchTags_def example_context_def procPatch_def example_build_def)
  have found: "findTable example_build ''patch schema.entity_table'' = Inr (''patch'', Some entity_table)"
    by (simp add: findTable_def example_build_def entity_table_def)
  have tt: "tableType example_build (Some entity_table) = Inr ''EntityTable''"
    by (simp add: example_build_def)
  from single_annotation_substitution [OF tags found tt, of example_fields]
  obtain fields' where f:
    "ReplaceTypeWithPatchPlugin example_build example_context example_fields = Inr fields'
     \<and> map_of fields' (argument example_build ''patch'') =
          Some \<lparr>spec_type = getTypeByName example_build (patchType example_build ''EntityTable''),
                spec_description = None\<rparr>
     \<and> (\<forall>f. f \<noteq> argument example_build ''patch'' \<longrightarrow> map_of fields' f = map_of example_fields f)
     \<and> map fst fields' =
          (if argument example_build ''patch'' \<in> fst ` set example_fields then map fst example_fields
           else map fst example_fields @ [argument example_build ''patch''])" ..
  have arg: "argument example_build ''patch'' = ''patch''"
    and ty: "getTypeByName example_build (patchType example_build ''EntityTable'') = Some EntityTablePatch"
    by (simp_all add: example_build_def)
  from f have 1: "ReplaceTypeWithPatchPlugin example_build example_context example_fields = Inr fields'"
    by (rule conjunct1)
  from f have 2: "map_of fields' ''patch'' = Some \<lparr>spec_type = Some EntityTablePatch, spec_description = None\<rparr>"
    unfolding arg ty by (elim conjE)
  from f have "\<forall>f. f \<noteq> ''patch'' \<longrightarrow> map_of fields' f = map_of example_fields f"
    unfolding arg by (elim conjE)
  then have 3: "map_of fields' ''id'' = map_of example_fields ''id''"
    by simp
  from f have "map fst fields' =
          (if ''patch'' \<in> fst ` set example_fields then map fst example_fields
           else map fst example_fields @ [''patch''])"
    unfolding arg by (elim conjE)
  then have 4: "map fst fields' = [''id'', ''patch'']"
    by (simp add: example_fields_def)
  from 1 2 3 4 show ?thesis by (intro exI [of _ fields'] conjI)
qed

section \<open>The arguments beside \<^verbatim>\<open>input\<close>\<close>

text \<open>
  Part 000 hands \<^verbatim>\<open>resolve\<close> the \<^verbatim>\<open>args\<close> object it received: the argument names are the
  submitted ones and every argument but \<^verbatim>\<open>input\<close> has its submitted value.
\<close>

lemma precomputed_frame:
  assumes "mutation_precomputed b sc fld args = Inr args'"
  shows "map fst args' = map fst args \<and> (\<forall>k. k \<noteq> ''input'' \<longrightarrow> map_of args' k = map_of args k)"
  using assms
  by (auto simp: mutation_precomputed_def resolver_precomputed_def update_conv' update_keys
      rev_image_eqI split: sum.splits option.splits if_splits)

text \<open>
  \<^verbatim>\<open>ResolvePatchFieldsPlugin.ts\<close>, when the field declares an \<^verbatim>\<open>input\<close> argument, hands
  \<^verbatim>\<open>resolve\<close> an object whose only key is \<^verbatim>\<open>input\<close>.
\<close>

lemma legacy_only_input:
  assumes "mutation_legacy b sc fld args = Inr args'" "filter_legacy sc"
    "map_of (field_args fld) ''input'' = Some inputArgType"
  shows "map fst args' = [''input'']"
  using assms
  by (auto simp: mutation_legacy_def resolver_legacy_def split: sum.splits)

text \<open>
  Claim C4 says that every argument beside \<^verbatim>\<open>input\<close> reaches the wrapped resolver with its
  original value. \<^verbatim>\<open>ResolvePatchFieldsPlugin.ts\<close> calls \<^verbatim>\<open>resolve\<close> with the fresh object
  \<^verbatim>\<open>{ input: transform(...) }\<close>: on the arguments \<^verbatim>\<open>{ input: ..., dryRun: true }\<close> the resolver
  receives no \<^verbatim>\<open>dryRun\<close>, while part 000 passes it on.
\<close>

theorem sibling_dropped:
  "mutation_legacy example_build example_scope example_field
       [(''input'', example_input), (''dryRun'', JBool True)]
     = Inr [(''input'', example_rewritten)]
   \<and> mutation_precomputed example_build example_scope example_field
       [(''input'', example_input), (''dryRun'', JBool True)]
     = Inr [(''input'', example_rewritten), (''dryRun'', JBool True)]"
  by (simp add: mutation_legacy_def filter_legacy_def resolver_legacy_def arg_value_def
      mutation_precomputed_def filter_precomputed_def resolver_precomputed_def
      example_scope_def example_field_def UpdateEntityInput_def EntityTablePatch_def
      example_input_def example_rewritten_def example_build_def entity_table_def
      patchArgAndTableMap_def patchTags_def procPatch_def typePatch_def findTable_def
      newJson_def getKey_def)

section \<open>The precomputed patch map\<close>

text \<open>
  The patch map after the walk of a type tree: for a type name without a vertical bar,
  the entries of an input object type of the tree are those of its annotations, the
  last annotation of an argument winning, and every other entry is as before the walk.
\<close>

lemma setPatchTags_pairs:
  "setPatchTags b name tags patchMap =
     (case annotation_pairs b tags of
        Inl e \<Rightarrow> Inl e
      | Inr pairs \<Rightarrow> Inr (spread patchMap (map (\<lambda>(a, t). (getKey name a, t)) pairs)))"
  by (induction tags arbitrary: patchMap) (auto split: sum.splits)

lemma setArgAndTable_pairs:
  "setArgAndTable b tags m =
     (case annotation_pairs b tags of
        Inl e \<Rightarrow> Inl e
      | Inr pairs \<Rightarrow> Inr (spread m pairs))"
  by (induction tags arbitrary: m) (auto split: sum.splits)

lemma getKey_same_name [simp]: "getKey name a = getKey name a' \<longleftrightarrow> a = a'"
  by (simp add: getKey_def)

lemma getKey_inj:
  "bar_free n \<Longrightarrow> bar_free n' \<Longrightarrow> getKey n a = getKey n' a' \<longleftrightarrow> n = n' \<and> a = a'"
proof (induction n arbitrary: n')
  case Nil
  then show ?case by (cases n') (auto simp: getKey_def bar_free_def)
next
  case (Cons c n)
  then show ?case by (cases n') (auto simp: getKey_def bar_free_def)
qed

lemma map_of_keyed_same:
  "map_of (map (\<lambda>(a, t). (getKey name a, t)) pairs) (getKey name arg) = map_of pairs arg"
  by (induction pairs) auto

lemma map_of_keyed_other:
  "bar_free n \<Longrightarrow> bar_free name \<Longrightarrow> n \<noteq> name \<Longrightarrow>
     map_of (map (\<lambda>(a, t). (getKey name a, t)) pairs) (getKey n arg) = None"
  by (induction pairs) (auto simp: getKey_inj)

lemma guard_annotations:
  "(if k = InputObjectType \<and> truthy (patchTags b name) \<and> stringOrObject (patchTags b name)
    then setPatchTags b name (tagList (patchTags b name)) patchMap else Inr patchMap)
   = (if k = InputObjectType then setPatchTags b name (annotations b name) patchMap else Inr patchMap)"
  by (simp add: annotations_def)

lemma setPatchTags_lookup:
  assumes "setPatchTags b name (annotations b name) pm = Inr pm'" "bar_free name" "bar_free n"
  shows "map_of pm' (getKey n a) =
     (case (if n = name then patch_lookup b n a else None) of
        Some x \<Rightarrow> Some x | None \<Rightarrow> map_of pm (getKey n a))"
proof -
  from assms(1) obtain pairs where p: "annotation_pairs b (annotations b name) = Inr pairs"
    and pm': "pm' = spread pm (map (\<lambda>(a, t). (getKey name a, t)) pairs)"
    by (auto simp: setPatchTags_pairs split: sum.splits)
  have r: "rev (map (\<lambda>(a, t). (getKey name a, t)) pairs) = map (\<lambda>(a, t). (getKey name a, t)) (rev pairs)"
    by (simp add: rev_map)
  show ?thesis
  proof (cases "n = name")
    case True
    then show ?thesis
      using p by (simp add: pm' spread_map_of r map_of_keyed_same patch_lookup_def map_add_def
          split: option.splits)
  next
    case False
    then show ?thesis
      using assms(2,3) by (simp add: pm' spread_map_of r map_of_keyed_other map_add_def)
  qed
qed

lemma populate_lookup:
  "populatePatchMap b t pm = Inr pm' \<Longrightarrow> \<forall>(k, n) \<in> nodes t. bar_free n \<Longrightarrow> bar_free n \<Longrightarrow>
     map_of pm' (getKey n a) =
       (case input_lookup b (nodes t) n a of Some x \<Rightarrow> Some x | None \<Rightarrow> map_of pm (getKey n a))"
  "populateFields b fs pm = Inr pm' \<Longrightarrow> \<forall>(k, n) \<in> nodes_fields fs. bar_free n \<Longrightarrow> bar_free n \<Longrightarrow>
     map_of pm' (getKey n a) =
       (case input_lookup b (nodes_fields fs) n a of Some x \<Rightarrow> Some x | None \<Rightarrow> map_of pm (getKey n a))"
proof (induction b t pm and b fs pm arbitrary: pm' and pm' rule: populatePatchMap_populateFields.induct)
  case (1 b ofType patchMap)
  then show ?case by simp
next
  case (2 b ofType patchMap)
  then show ?case by simp
next
  case (3 b k name gqlFields patchMap)
  from "3.prems"(1) obtain pm1 where
    s: "(if k = InputObjectType then setPatchTags b name (annotations b name) patchMap else Inr patchMap) = Inr pm1"
    and f: "populateFields b gqlFields pm1 = Inr pm'"
    unfolding populatePatchMap.simps guard_annotations by (auto split: sum.splits)
  from "3.prems"(2) have bn: "bar_free name" and bf: "\<forall>(k, n) \<in> nodes_fields gqlFields. bar_free n"
    by auto
  have g: "(if k = InputObjectType \<and> truthy (patchTags b name) \<and> stringOrObject (patchTags b name)
       then setPatchTags b name (tagList (patchTags b name)) patchMap else Inr patchMap) = Inr pm1"
    using s by (simp only: guard_annotations)
  have rest: "map_of pm' (getKey n a) =
       (case input_lookup b (nodes_fields gqlFields) n a of Some x \<Rightarrow> Some x | None \<Rightarrow> map_of pm1 (getKey n a))"
    using "3.IH" [OF g f bf "3.prems"(3)] .
  have first: "map_of pm1 (getKey n a) =
     (case (if k = InputObjectType \<and> n = name then patch_lookup b n a else None) of
        Some x \<Rightarrow> Some x | None \<Rightarrow> map_of patchMap (getKey n a))"
  proof (cases "k = InputObjectType")
    case True
    with s have "setPatchTags b name (annotations b name) patchMap = Inr pm1" by simp
    from setPatchTags_lookup [OF this bn "3.prems"(3)] True show ?thesis by simp
  next
    case False
    with s show ?thesis by simp
  qed
  show ?case
    unfolding rest first
    by (auto simp: input_lookup_def split: option.splits)
next
  case (4 b uu patchMap)
  then show ?case by (simp add: input_lookup_def)
next
  case (5 b patchMap)
  then show ?case by (simp add: input_lookup_def)
next
  case (6 b fieldName fieldType rest patchMap)
  from "6.prems"(1) obtain pm1 where
    s: "populatePatchMap b fieldType patchMap = Inr pm1"
    and f: "populateFields b rest pm1 = Inr pm'"
    by (auto split: sum.splits)
  from "6.prems"(2) have b1: "\<forall>(k, n) \<in> nodes fieldType. bar_free n"
    and b2: "\<forall>(k, n) \<in> nodes_fields rest. bar_free n"
    by auto
  note one = "6.IH"(1) [OF s b1 "6.prems"(3)]
  note two = "6.IH"(2) [OF s f b2 "6.prems"(3)]
  show ?case
    unfolding two one
    by (auto simp: input_lookup_def split: option.splits)
qed

lemma populate_pairs_ok:
  "populatePatchMap b t pm = Inr pm' \<Longrightarrow> (InputObjectType, n) \<in> nodes t \<Longrightarrow>
     \<exists>pairs. annotation_pairs b (annotations b n) = Inr pairs"
  "populateFields b fs pm = Inr pm' \<Longrightarrow> (InputObjectType, n) \<in> nodes_fields fs \<Longrightarrow>
     \<exists>pairs. annotation_pairs b (annotations b n) = Inr pairs"
proof (induction b t pm and b fs pm arbitrary: pm' and pm' rule: populatePatchMap_populateFields.induct)
  case (3 b k name gqlFields patchMap)
  from "3.prems"(1) obtain pm1 where
    s: "(if k = InputObjectType then setPatchTags b name (annotations b name) patchMap else Inr patchMap) = Inr pm1"
    and f: "populateFields b gqlFields pm1 = Inr pm'"
    unfolding populatePatchMap.simps guard_annotations by (auto split: sum.splits)
  have g: "(if k = InputObjectType \<and> truthy (patchTags b name) \<and> stringOrObject (patchTags b name)
       then setPatchTags b name (tagList (patchTags b name)) patchMap else Inr patchMap) = Inr pm1"
    using s by (simp only: guard_annotations)
  show ?case
  proof (cases "(InputObjectType, n) \<in> nodes_fields gqlFields")
    case True
    from "3.IH" [OF g f True] show ?thesis .
  next
    case False
    with "3.prems"(2) have "k = InputObjectType" "n = name" by auto
    with s show ?thesis by (auto simp: setPatchTags_pairs split: sum.splits)
  qed
next
  case (6 b fieldName fieldType rest patchMap)
  from "6.prems"(1) obtain pm1 where
    s: "populatePatchMap b fieldType patchMap = Inr pm1"
    and f: "populateFields b rest pm1 = Inr pm'"
    by (auto split: sum.splits)
  from "6.prems"(2) "6.IH"(1) [OF s] "6.IH"(2) [OF s f]
  show ?case by auto
qed simp_all

lemma legacy_map:
  assumes "patchTags b n \<noteq> Some TagTrue" "annotation_pairs b (annotations b n) = Inr pairs"
  shows "patchArgAndTableMap b InputObjectType n = Inr (spread [] pairs)"
proof (cases "patchTags b n")
  case None
  with assms show ?thesis by (simp add: patchArgAndTableMap_def annotations_def)
next
  case (Some tg)
  show ?thesis
  proof (cases tg)
    case TagTrue
    with Some assms show ?thesis by simp
  next
    case (TagStr s)
    with Some assms show ?thesis
      by (auto simp: patchArgAndTableMap_def annotations_def setArgAndTable_pairs)
  next
    case (TagArr ss)
    with Some assms show ?thesis
      by (auto simp: patchArgAndTableMap_def annotations_def setArgAndTable_pairs)
  qed
qed

lemma populate_agrees:
  assumes pop: "populatePatchMap b t [] = Inr pm"
    and names: "valid_names t"
    and bare: "\<forall>(k, n) \<in> nodes t. patchTags b n \<noteq> Some TagTrue"
    and node: "(k, n) \<in> nodes t"
  shows "agrees b pm k n"
proof -
  from names node have bf: "\<forall>(k, n) \<in> nodes t. bar_free n" and bn: "bar_free n"
    by (auto simp: valid_names_def)
  have look: "map_of pm (getKey n a) = input_lookup b (nodes t) n a" for a
    using populate_lookup(1) [OF pop bf bn, of a] by (simp split: option.splits)
  show ?thesis
  proof (cases "k = InputObjectType")
    case True
    with node populate_pairs_ok(1) [OF pop] obtain pairs where
      p: "annotation_pairs b (annotations b n) = Inr pairs" by blast
    from bare node have "patchTags b n \<noteq> Some TagTrue" by auto
    from legacy_map [OF this p] have m: "patchArgAndTableMap b k n = Inr (spread [] pairs)"
      using True by simp
    have "map_of pm (getKey n a) = map_of (spread [] pairs) a" for a
      using look [of a] node True p
      by (simp add: input_lookup_def patch_lookup_def spread_map_of)
    with m show ?thesis by (auto simp: agrees_def)
  next
    case False
    with names node have "(InputObjectType, n) \<notin> nodes t"
      by (auto simp: valid_names_def)
    then have "map_of pm (getKey n a) = None" for a
      using look [of a] by (simp add: input_lookup_def)
    with False show ?thesis by (simp add: agrees_def patchArgAndTableMap_def)
  qed
qed

section \<open>The two versions of the rewrite\<close>

lemma nodes_field: "map_of fs a = Some ft \<Longrightarrow> nodes ft \<subseteq> nodes_fields fs"
  by (induction fs) (auto split: if_splits)

lemma entry_both:
  assumes "\<forall>a. map_of pm (getKey n a) = map_of m a"
    and "\<And>ft. map_of fs a = Some ft \<Longrightarrow> transform b pm ft x = transform_legacy b ft x"
  shows "transform_entry b pm n fs a x = legacy_entry b m fs a x"
  using assms by (simp add: transform_entry_def legacy_entry_def split: option.splits)

lemma agree_transform:
  "(\<forall>(k, n) \<in> nodes t. agrees b pm k n) \<Longrightarrow> conforms t v \<Longrightarrow>
     transform b pm t v = transform_legacy b t v"
  "(\<forall>(k, n) \<in> nodes t. agrees b pm k n) \<Longrightarrow> conforms_items t xs \<Longrightarrow>
     transform_items b pm t xs = map_legacy b t xs"
  "(\<forall>(k, n) \<in> nodes_fields fs. agrees b pm k n) \<Longrightarrow> conforms_entries fs es \<Longrightarrow>
     (\<forall>a. map_of pm (getKey n' a) = map_of m a) \<Longrightarrow>
     entry_results (transform_entry b pm n' fs) es = entry_results (legacy_entry b m fs) es"
proof (induction t v and t xs and fs es arbitrary: and and n' m rule: conforms_conforms_items_conforms_entries.induct)
  case (1 ofType v)
  then show ?case by (cases v) auto
next
  case (2 ofType v)
  then show ?case by simp
next
  case (3 k name gqlFields v)
  from "3.prems"(1) obtain m where m: "patchArgAndTableMap b k name = Inr m"
    "\<forall>a. map_of pm (getKey name a) = map_of m a"
    by (auto simp: agrees_def)
  from "3.prems"(1) have sub: "\<forall>(k, n) \<in> nodes_fields gqlFields. agrees b pm k n" by auto
  show ?case
  proof (cases v)
    case (JObj kvs)
    with "3.prems"(2) have d: "distinct (map fst kvs)" and c: "conforms_entries gqlFields kvs" by auto
    from "3.IH" [OF JObj sub c m(2)]
    show ?thesis
      unfolding JObj transform_object [OF d] transform_legacy_object [OF d] using m(1) by simp
  next
    case JNull
    then show ?thesis using m(1) by simp
  next
    case JUndefined
    then show ?thesis using m(1) by simp
  qed (use "3.prems"(2) in auto)
next
  case (4 uu v)
  then show ?case by simp
next
  case (5 ofType)
  then show ?case by simp
next
  case (6 ofType listItem rest)
  then show ?case by (simp split: sum.splits)
next
  case (7 gqlFields)
  then show ?case by simp
next
  case (8 gqlFields arg val rest)
  have e: "transform_entry b pm n' gqlFields arg val = legacy_entry b m gqlFields arg val"
  proof (rule entry_both [OF "8.prems"(3)])
    fix ft assume ft: "map_of gqlFields arg = Some ft"
    with "8.prems"(1) have a: "\<forall>(k, n) \<in> nodes ft. agrees b pm k n"
      using nodes_field [OF ft] by auto
    from "8.prems"(2) ft have c: "conforms ft val" by simp
    from "8.IH"(1) [OF ft a c] show "transform b pm ft val = transform_legacy b ft val" .
  qed
  from "8.prems"(2) have c: "conforms_entries gqlFields rest" by simp
  from "8.IH"(2) [OF "8.prems"(1) c "8.prems"(3)] e
  show ?case by (simp split: sum.splits)
qed

lemma transform_undefined:
  "transform b pm t JUndefined = Inr v' \<Longrightarrow> v' = JUndefined"
  by (induction t) auto

section \<open>An annotation whose table does not resolve\<close>

lemma only_error: "(e::error) = TypeError"
  by (cases e) simp

lemma transform_entries_fail:
  "(a, x) \<in> set es \<Longrightarrow> transform_entry b pm n fs a x = Inl e \<Longrightarrow>
     transform_entries b pm n fs es cur = Inl TypeError"
proof (induction es arbitrary: cur)
  case Nil
  then show ?case by simp
next
  case (Cons p es)
  obtain a' x' where p: "p = (a', x')" by (cases p)
  show ?case
  proof (cases "p = (a, x)")
    case True
    with p Cons.prems(2) show ?thesis
      by (auto simp: transform_entry_def only_error [of e] split: option.splits sum.splits)
  next
    case False
    with Cons.prems have "(a, x) \<in> set es" by auto
    from Cons.IH [OF this Cons.prems(2)] show ?thesis
      unfolding p
      by (auto simp: only_error split: option.splits sum.splits)
  qed
qed

lemma reduce_legacy_fail:
  "(a, x) \<in> set es \<Longrightarrow> legacy_entry b m fs a x = Inl e \<Longrightarrow>
     reduce_legacy b m fs es res = Inl TypeError"
proof (induction es arbitrary: res)
  case Nil
  then show ?case by simp
next
  case (Cons p es)
  obtain a' x' where p: "p = (a', x')" by (cases p)
  show ?case
  proof (cases "p = (a, x)")
    case True
    with p Cons.prems(2) show ?thesis
      by (auto simp: legacy_entry_def only_error [of e] split: option.splits sum.splits)
  next
    case False
    with Cons.prems have "(a, x) \<in> set es" by auto
    from Cons.IH [OF this Cons.prems(2)] show ?thesis
      unfolding p
      by (auto simp: only_error split: option.splits sum.splits)
  qed
qed









section \<open>A second application of the rewrite\<close>

lemma reduceAttributes_keys:
  "reduceAttributes b attrs val obj = Inr r \<Longrightarrow>
     fst ` set r \<subseteq> fst ` set obj \<union> attr_name ` set attrs"
proof (induction attrs arbitrary: obj)
  case Nil
  then show ?case by simp
next
  case (Cons a attrs)
  show ?case
  proof (cases "has_in b (column b a) val")
    case (Inl e)
    with Cons.prems show ?thesis by simp
  next
    case (Inr present)
    show ?thesis
    proof (cases present)
      case True
      with Inr Cons.prems have
        "reduceAttributes b attrs val (AList.update (attr_name a) (get_prop b val (column b a)) obj) = Inr r"
        by simp
      from Cons.IH [OF this] show ?thesis by (auto simp: dom_update)
    next
      case False
      with Inr Cons.prems have "reduceAttributes b attrs val obj = Inr r" by simp
      from Cons.IH [OF this] show ?thesis by auto
    qed
  qed
qed

lemma keep_attr_none:
  "\<forall>a \<in> set attrs. \<not> in_object (column b a) kvs \<Longrightarrow> fold (keep_attr b kvs) attrs obj = obj"
  by (induction attrs arbitrary: obj) (simp_all add: keep_attr_def)

lemma newJson_again:
  assumes "newJson b (Some T) val = Inr x"
    and "column b ` set (class_attributes T)
           \<inter> (attr_name ` set (class_attributes T) \<union> set objectPrototype) = {}"
  shows "newJson b (Some T) x = Inr (JObj [])"
proof -
  from assms(1) obtain r where r: "reduceAttributes b (class_attributes T) val [] = Inr r" "x = JObj r"
    by (auto simp: newJson_def split: sum.splits)
  from reduceAttributes_keys [OF r(1)] have "fst ` set r \<subseteq> attr_name ` set (class_attributes T)"
    by simp
  with assms(2) have "\<forall>a \<in> set (class_attributes T). \<not> in_object (column b a) r"
    unfolding in_object_def by blast
  then show ?thesis
    by (simp add: r(2) newJson_def reduceAttributes_object keep_attr_none)
qed

lemma entries_twice:
  assumes d: "distinct (map fst obj)" and mem: "(arg, val) \<in> set obj"
    and f: "\<And>v x. f arg v = Inr x \<Longrightarrow> f arg x = Inr (JObj [])"
    and once: "entry_results f obj = Inr es1"
    and twice: "entry_results f es1 = Inr es2"
  shows "map_of es2 arg = Some (JObj [])"
proof -
  from entry_results_lookup [OF once d mem] obtain x where
    x: "f arg val = Inr x" "map_of es1 arg = Some x" by blast
  from entry_results_keys [OF once] d have d1: "distinct (map fst es1)" by simp
  from x(2) have m1: "(arg, x) \<in> set es1" by (rule map_of_SomeD)
  from entry_results_lookup [OF twice d1 m1] obtain y where
    y: "f arg x = Inr y" "map_of es2 arg = Some y" by blast
  from f [OF x(1)] y show ?thesis by simp
qed

text \<open>
  Against claim C5 as stated: the second application does match the annotation again,
  since the match is on the name of the field (\<^verbatim>\<open>patch\<close>), which the rewrite does not
  change. It rebuilds the field from the raw column names, finds none of the inflected
  names in it and leaves the empty object: the twice-rewritten value is not the
  once-rewritten one.
\<close>

theorem second_application_counterexample:
  "transform example_build example_patch_map UpdateEntityInput example_input = Inr example_rewritten
   \<and> transform example_build example_patch_map UpdateEntityInput example_rewritten = Inr example_twice
   \<and> transform_legacy example_build UpdateEntityInput example_input = Inr example_rewritten
   \<and> transform_legacy example_build UpdateEntityInput example_rewritten = Inr example_twice
   \<and> example_twice \<noteq> example_rewritten"
  by (simp add: UpdateEntityInput_def EntityTablePatch_def example_input_def
      example_rewritten_def example_twice_def example_patch_map_def newJson_def getKey_def
      entity_table_def example_build_def patchArgAndTableMap_def patchTags_def procPatch_def
      typePatch_def findTable_def objectPrototype_def)

text \<open>
  Claim C5, amended. A second application of the rewrite to an already rewritten value
  matches every annotated field again (the match is on the name of the owning type and
  the name of the field, which the rewrite leaves in place) and rebuilds its value from
  the already rewritten object: when no inflected column name of the table is also a
  raw attribute name of the table or the name of a member of \<^verbatim>\<open>Object.prototype\<close>, the
  field becomes the empty object, in both versions of the rewrite. The second
  application then leaves the value equal to the once-rewritten value only if the field
  was already the empty object after the first application.
\<close>

theorem second_application:
  assumes obj: "distinct (map fst obj)" "(arg, val) \<in> set obj"
    and disj: "column b ` set (class_attributes T)
                 \<inter> (attr_name ` set (class_attributes T) \<union> set objectPrototype) = {}"
  shows "(map_of patchMap (getKey name arg) = Some (Some T) \<and>
          transform b patchMap (ObjectLike k name gqlFields) (JObj obj) = Inr once \<and>
          transform b patchMap (ObjectLike k name gqlFields) once = Inr twice
            \<longrightarrow> (\<exists>es1 es2. once = JObj es1 \<and> twice = JObj es2
                   \<and> map_of es2 arg = Some (JObj [])
                   \<and> (twice = once \<longrightarrow> map_of es1 arg = Some (JObj []))))
       \<and> (patchArgAndTableMap b k name = Inr argAndTable \<and>
          map_of argAndTable arg = Some (Some T) \<and>
          transform_legacy b (ObjectLike k name gqlFields) (JObj obj) = Inr once' \<and>
          transform_legacy b (ObjectLike k name gqlFields) once' = Inr twice'
            \<longrightarrow> (\<exists>es1 es2. once' = JObj es1 \<and> twice' = JObj es2
                   \<and> map_of es2 arg = Some (JObj [])
                   \<and> (twice' = once' \<longrightarrow> map_of es1 arg = Some (JObj []))))"
proof -
  have 1: "\<exists>es1 es2. once = JObj es1 \<and> twice = JObj es2 \<and> map_of es2 arg = Some (JObj [])
             \<and> (twice = once \<longrightarrow> map_of es1 arg = Some (JObj []))"
    if m: "map_of patchMap (getKey name arg) = Some (Some T)"
      and o: "transform b patchMap (ObjectLike k name gqlFields) (JObj obj) = Inr once"
      and t: "transform b patchMap (ObjectLike k name gqlFields) once = Inr twice"
  proof -
    let ?f = "transform_entry b patchMap name gqlFields"
    from o obtain es1 where es1: "entry_results ?f obj = Inr es1" "once = JObj es1"
      unfolding transform_object [OF obj(1)] by (auto split: sum.splits)
    from entry_results_keys [OF es1(1)] obj(1) have d1: "distinct (map fst es1)" by simp
    from t obtain es2 where es2: "entry_results ?f es1 = Inr es2" "twice = JObj es2"
      unfolding es1(2) transform_object [OF d1] by (auto split: sum.splits)
    have "?f arg x = Inr (JObj [])" if "?f arg v = Inr x" for v x
      using that m newJson_again [OF _ disj] by (simp add: transform_entry_def)
    from entries_twice [OF obj this es1(1) es2(1)] have "map_of es2 arg = Some (JObj [])" .
    with es1(2) es2(2) show ?thesis by auto
  qed
  have 2: "\<exists>es1 es2. once' = JObj es1 \<and> twice' = JObj es2 \<and> map_of es2 arg = Some (JObj [])
             \<and> (twice' = once' \<longrightarrow> map_of es1 arg = Some (JObj []))"
    if am: "patchArgAndTableMap b k name = Inr argAndTable"
      and m: "map_of argAndTable arg = Some (Some T)"
      and o: "transform_legacy b (ObjectLike k name gqlFields) (JObj obj) = Inr once'"
      and t: "transform_legacy b (ObjectLike k name gqlFields) once' = Inr twice'"
  proof -
    let ?f = "legacy_entry b argAndTable gqlFields"
    from o am obtain es1 where es1: "entry_results ?f obj = Inr es1" "once' = JObj es1"
      unfolding transform_legacy_object [OF obj(1)] by (auto split: sum.splits)
    from entry_results_keys [OF es1(1)] obj(1) have d1: "distinct (map fst es1)" by simp
    from t am obtain es2 where es2: "entry_results ?f es1 = Inr es2" "twice' = JObj es2"
      unfolding es1(2) transform_legacy_object [OF d1] by (auto split: sum.splits)
    have "?f arg x = Inr (JObj [])" if "?f arg v = Inr x" for v x
      using that m newJson_again [OF _ disj] by (simp add: legacy_entry_def)
    from entries_twice [OF obj this es1(1) es2(1)] have "map_of es2 arg = Some (JObj [])" .
    with es1(2) es2(2) show ?thesis by auto
  qed
  from 1 2 show ?thesis by blast
qed

theorem second_application_witness:
  "transform example_build example_patch_map UpdateEntityInput example_input = Inr example_rewritten
   \<and> transform example_build example_patch_map UpdateEntityInput example_rewritten = Inr example_twice
   \<and> transform_legacy example_build UpdateEntityInput example_input = Inr example_rewritten
   \<and> transform_legacy example_build UpdateEntityInput example_rewritten = Inr example_twice
   \<and> (\<exists>es1 es2. example_rewritten = JObj es1 \<and> example_twice = JObj es2
          \<and> map_of es2 ''patch'' = Some (JObj [])
          \<and> (example_twice = example_rewritten \<longrightarrow> map_of es1 ''patch'' = Some (JObj [])))"
proof -
  let ?obj = "[(''id'', JStr ''u1''),
     (''patch'', JObj [(''firstColumn'', JNum 1), (''secondColumn'', JNum 2)])]"
  let ?fs = "[(''id'', OtherType ''UUID''), (''patch'', EntityTablePatch)]"
  have d: "distinct (map fst ?obj)" by simp
  have mem: "(''patch'', JObj [(''firstColumn'', JNum 1), (''secondColumn'', JNum 2)]) \<in> set ?obj"
    by simp
  have disj: "column example_build ` set (class_attributes entity_table)
      \<inter> (attr_name ` set (class_attributes entity_table) \<union> set objectPrototype) = {}"
    by (simp add: example_build_def entity_table_def objectPrototype_def)
  have k: "map_of example_patch_map (getKey ''UpdateEntityInput'' ''patch'') = Some (Some entity_table)"
    by (simp add: example_patch_map_def)
  have o: "transform example_build example_patch_map
      (ObjectLike InputObjectType ''UpdateEntityInput'' ?fs) (JObj ?obj) = Inr example_rewritten"
    by (simp add: example_rewritten_def example_patch_map_def newJson_def getKey_def
        entity_table_def example_build_def)
  have t: "transform example_build example_patch_map
      (ObjectLike InputObjectType ''UpdateEntityInput'' ?fs) example_rewritten = Inr example_twice"
    by (simp add: example_rewritten_def example_twice_def example_patch_map_def newJson_def
        getKey_def entity_table_def example_build_def objectPrototype_def)
  have am: "patchArgAndTableMap example_build InputObjectType ''UpdateEntityInput''
      = Inr [(''patch'', Some entity_table)]"
    by (simp add: patchArgAndTableMap_def patchTags_def procPatch_def findTable_def
        example_build_def entity_table_def)
  have k': "map_of [(''patch'', Some entity_table)] ''patch'' = Some (Some entity_table)" by simp
  have o': "transform_legacy example_build
      (ObjectLike InputObjectType ''UpdateEntityInput'' ?fs) (JObj ?obj) = Inr example_rewritten"
    by (subst transform_legacy.simps, subst am)
       (simp add: example_rewritten_def newJson_def entity_table_def example_build_def)
  have t': "transform_legacy example_build
      (ObjectLike InputObjectType ''UpdateEntityInput'' ?fs) example_rewritten = Inr example_twice"
    by (subst transform_legacy.simps, subst am)
       (simp add: example_rewritten_def example_twice_def newJson_def entity_table_def
        example_build_def objectPrototype_def)
  note th = second_application [OF d mem disj, of example_patch_map "''UpdateEntityInput''"
      InputObjectType ?fs example_rewritten example_twice
      "[(''patch'', Some entity_table)]" example_rewritten example_twice]
  from th [THEN conjunct1, rule_format, OF conjI [OF k conjI [OF o t]]]
  have 1: "\<exists>es1 es2. example_rewritten = JObj es1 \<and> example_twice = JObj es2
          \<and> map_of es2 ''patch'' = Some (JObj [])
          \<and> (example_twice = example_rewritten \<longrightarrow> map_of es1 ''patch'' = Some (JObj []))" .
  from th [THEN conjunct2, rule_format, OF conjI [OF am conjI [OF k' conjI [OF o' t']]]]
  have 2: "\<exists>es1 es2. example_rewritten = JObj es1 \<and> example_twice = JObj es2
          \<and> map_of es2 ''patch'' = Some (JObj [])
          \<and> (example_twice = example_rewritten \<longrightarrow> map_of es1 ''patch'' = Some (JObj []))" .
  from 1 2 o t o' t' show ?thesis by (simp only: UpdateEntityInput_def example_input_def)
qed

section \<open>A mutation without annotations\<close>

lemma populate_none:
  "\<forall>(k, n) \<in> nodes t. k = InputObjectType \<longrightarrow> annotations b n = [] \<Longrightarrow>
     populatePatchMap b t pm = Inr pm"
  "\<forall>(k, n) \<in> nodes_fields fs. k = InputObjectType \<longrightarrow> annotations b n = [] \<Longrightarrow>
     populateFields b fs pm = Inr pm"
proof (induction b t pm and b fs pm rule: populatePatchMap_populateFields.induct)
  case (3 b k name gqlFields patchMap)
  have g: "(if k = InputObjectType \<and> truthy (patchTags b name) \<and> stringOrObject (patchTags b name)
       then setPatchTags b name (tagList (patchTags b name)) patchMap else Inr patchMap) = Inr patchMap"
    unfolding guard_annotations using "3.prems" by auto
  from "3.prems" have "\<forall>(k, n) \<in> nodes_fields gqlFields. k = InputObjectType \<longrightarrow> annotations b n = []"
    by auto
  from "3.IH" [OF g this] g show ?case
    by (simp only: populatePatchMap.simps) simp
next
  case (6 b fieldName fieldType rest patchMap)
  from "6.prems" have 1: "\<forall>(k, n) \<in> nodes fieldType. k = InputObjectType \<longrightarrow> annotations b n = []"
    and 2: "\<forall>(k, n) \<in> nodes_fields rest. k = InputObjectType \<longrightarrow> annotations b n = []"
    by auto
  from "6.IH"(1) [OF 1] "6.IH"(2) [OF _ 2] show ?case by simp
qed simp_all

lemma legacy_map_none:
  assumes "k = InputObjectType \<longrightarrow> annotations b n = []" "patchArgAndTableMap b k n = Inr m"
  shows "m = []"
proof (cases "k = InputObjectType")
  case True
  with assms show ?thesis
    by (cases "patchTags b n" rule: truthy.cases)
       (auto simp: patchArgAndTableMap_def annotations_def split: if_splits)
next
  case False
  with assms show ?thesis by (simp add: patchArgAndTableMap_def)
qed

lemma legacy_unannotated:
  "(\<forall>(k, n) \<in> nodes t. k = InputObjectType \<longrightarrow> annotations b n = []) \<Longrightarrow> conforms t v \<Longrightarrow>
     transform_legacy b t v = Inr v' \<Longrightarrow> v' = v"
  "(\<forall>(k, n) \<in> nodes t. k = InputObjectType \<longrightarrow> annotations b n = []) \<Longrightarrow> conforms_items t xs \<Longrightarrow>
     map_legacy b t xs = Inr ys \<Longrightarrow> ys = xs"
  "(\<forall>(k, n) \<in> nodes_fields fs. k = InputObjectType \<longrightarrow> annotations b n = []) \<Longrightarrow>
     conforms_entries fs es \<Longrightarrow> entry_results (legacy_entry b [] fs) es = Inr r \<Longrightarrow> r = es"
proof (induction t v and t xs and fs es arbitrary: v' and ys and r
    rule: conforms_conforms_items_conforms_entries.induct)
  case (1 ofType v)
  then show ?case by (cases v) (auto split: sum.splits)
next
  case (2 ofType v)
  then show ?case by simp
next
  case (3 k name gqlFields v)
  from "3.prems"(3) obtain m where m: "patchArgAndTableMap b k name = Inr m"
    by (auto split: sum.splits)
  from "3.prems"(1) have "k = InputObjectType \<longrightarrow> annotations b name = []" by auto
  from legacy_map_none [OF this m] have m0: "m = []" .
  from "3.prems"(1) have sub: "\<forall>(k, n) \<in> nodes_fields gqlFields. k = InputObjectType \<longrightarrow> annotations b n = []"
    by auto
  show ?case
  proof (cases v)
    case (JObj kvs)
    with "3.prems"(2) have d: "distinct (map fst kvs)" and c: "conforms_entries gqlFields kvs" by auto
    from "3.prems"(3) obtain r where r: "entry_results (legacy_entry b [] gqlFields) kvs = Inr r" "v' = JObj r"
      unfolding JObj transform_legacy_object [OF d] using m m0 by (auto split: sum.splits)
    from "3.IH" [OF JObj sub c r(1)] r(2) JObj show ?thesis by simp
  qed (use "3.prems" m in \<open>auto split: sum.splits\<close>)
next
  case (4 uu v)
  then show ?case by simp
next
  case (5 ofType)
  then show ?case by simp
next
  case (6 ofType listItem rest)
  from "6.prems"(3) obtain y ys' where y: "ys = y # ys'" "transform_legacy b ofType listItem = Inr y"
    "map_legacy b ofType rest = Inr ys'"
    by (auto split: sum.splits)
  from "6.prems"(2) have c: "conforms ofType listItem" "conforms_items ofType rest" by auto
  from "6.IH"(1) [OF "6.prems"(1) c(1) y(2)] "6.IH"(2) [OF "6.prems"(1) c(2) y(3)] y(1)
  show ?case by simp
next
  case (7 gqlFields)
  then show ?case by simp
next
  case (8 gqlFields arg val rest)
  from "8.prems"(3) obtain x r' where x: "r = (arg, x) # r'"
    "legacy_entry b [] gqlFields arg val = Inr x"
    "entry_results (legacy_entry b [] gqlFields) rest = Inr r'"
    by (auto split: sum.splits)
  from x(2) obtain ft where ft: "map_of gqlFields arg = Some ft" "transform_legacy b ft val = Inr x"
    by (auto simp: legacy_entry_def split: option.splits)
  from "8.prems"(1) nodes_field [OF ft(1)]
  have a: "\<forall>(k, n) \<in> nodes ft. k = InputObjectType \<longrightarrow> annotations b n = []" by auto
  from "8.prems"(2) ft(1) have c: "conforms ft val" "conforms_entries gqlFields rest" by auto
  from "8.IH"(1) [OF ft(1) a c(1) ft(2)] "8.IH"(2) [OF "8.prems"(1) c(2) x(3)] x(1)
  show ?case by simp
qed

text \<open>
  Against claim C6 as stated: \<^verbatim>\<open>ResolvePatchFieldsPlugin.ts\<close> wraps the resolver of every root
  mutation that comes from a procedure, annotated or not. On a mutation without any
  annotation its rewrite walks the input all the same and throws on a \<^verbatim>\<open>null\<close> at a
  nullable field of a composite type (\<^verbatim>\<open>Object.entries(null)\<close>), so the submitted
  arguments do not reach the underlying resolver; part 000 passes them on.
\<close>

theorem unannotated_mutation_counterexample:
  "populatePatchMap example_build (NonNullType CreateThingInput) [] = Inr []
   \<and> filter_legacy example_scope
   \<and> mutation_legacy example_build example_scope plain_field [(''input'', null_owner_input)]
       = Inl TypeError
   \<and> mutation_precomputed example_build example_scope plain_field [(''input'', null_owner_input)]
       = Inr [(''input'', null_owner_input)]"
  by (simp add: mutation_legacy_def filter_legacy_def resolver_legacy_def arg_value_def
      mutation_precomputed_def filter_precomputed_def
      example_scope_def plain_field_def CreateThingInput_def null_owner_input_def
      example_build_def patchArgAndTableMap_def patchTags_def procPatch_def typePatch_def)

text \<open>
  Claim C6, amended. For every mutation whose reachable input type graph has no patch
  annotation, part 000 leaves the resolver of the mutation field unwrapped and the
  underlying resolver receives the submitted arguments as they are. The other version
  wraps the resolver of every root mutation that comes from a procedure, whatever the
  annotations; on such a mutation, whenever its rewrite of a conforming input value
  completes, the rewritten value is the submitted value.
\<close>

theorem unannotated_mutation:
  assumes none: "\<forall>(k, n) \<in> nodes inputArgType. k = InputObjectType \<longrightarrow> annotations b n = []"
    and fld: "map_of (field_args fld) ''input'' = Some inputArgType"
  shows "filter_precomputed b sc fld = Inr None
       \<and> mutation_precomputed b sc fld args = Inr args
       \<and> (filter_legacy sc \<longleftrightarrow>
            isRootMutation sc \<and> pgFieldIntrospection_kind sc = Some ''procedure'')
       \<and> (conforms inputArgType v \<and> transform_legacy b inputArgType v = Inr v' \<longrightarrow> v' = v)"
proof -
  from populate_none(1) [OF none] have "populatePatchMap b inputArgType [] = Inr []" .
  with fld have f: "filter_precomputed b sc fld = Inr None"
    by (simp add: filter_precomputed_def)
  then have m: "mutation_precomputed b sc fld args = Inr args"
    by (simp add: mutation_precomputed_def)
  from legacy_unannotated(1) [OF none]
  have l: "conforms inputArgType v \<and> transform_legacy b inputArgType v = Inr v' \<longrightarrow> v' = v"
    by blast
  from f m l show ?thesis by (simp add: filter_legacy_def)
qed

theorem unannotated_mutation_witness:
  "filter_precomputed example_build example_scope plain_field = Inr None
   \<and> mutation_precomputed example_build example_scope plain_field
        [(''input'', plain_input), (''dryRun'', JBool True)]
      = Inr [(''input'', plain_input), (''dryRun'', JBool True)]
   \<and> filter_legacy example_scope
   \<and> conforms (NonNullType CreateThingInput) plain_input
   \<and> transform_legacy example_build (NonNullType CreateThingInput) plain_input = Inr plain_input"
proof -
  have pt: "patchTags example_build ''CreateThingInput'' = None"
    "patchTags example_build ''OwnerInput'' = None"
    by (simp_all add: patchTags_def procPatch_def typePatch_def example_build_def)
  have none: "\<forall>(k, n) \<in> nodes (NonNullType CreateThingInput).
      k = InputObjectType \<longrightarrow> annotations example_build n = []"
    by (simp add: CreateThingInput_def annotations_def pt)
  have fld: "map_of (field_args plain_field) ''input'' = Some (NonNullType CreateThingInput)"
    by (simp add: plain_field_def)
  have sc: "isRootMutation example_scope \<and> pgFieldIntrospection_kind example_scope = Some ''procedure''"
    by (simp add: example_scope_def)
  have c: "conforms (NonNullType CreateThingInput) plain_input"
    by (simp add: CreateThingInput_def plain_input_def)
  have l: "transform_legacy example_build (NonNullType CreateThingInput) plain_input
      = Inr plain_input"
    by (simp add: CreateThingInput_def plain_input_def patchArgAndTableMap_def pt)
  note th = unannotated_mutation [OF none fld, of example_scope
      "[(''input'', plain_input), (''dryRun'', JBool True)]" plain_input plain_input]
  from th [THEN conjunct2, THEN conjunct2, THEN conjunct2, rule_format, OF conjI [OF c l]]
  have "plain_input = plain_input" .
  with th sc c l show ?thesis by simp
qed

section \<open>The two versions of the rewrite, compared\<close>

lemma annotation_pairs_nil:
  "annotation_pairs b ss = Inr [] \<Longrightarrow> ss = []"
  by (cases ss) (auto split: sum.splits)

lemma populate_empty:
  assumes pop: "populatePatchMap b t [] = Inr []"
    and names: "\<forall>(k, n) \<in> nodes t. bar_free n"
    and node: "(InputObjectType, n) \<in> nodes t"
  shows "annotations b n = []"
proof -
  from populate_pairs_ok(1) [OF pop node] obtain pairs where
    p: "annotation_pairs b (annotations b n) = Inr pairs" by blast
  from names node have bn: "bar_free n" by auto
  have none: "map_of (rev pairs) a = None" for a
    using populate_lookup(1) [OF pop names bn, of a] node p
    by (simp add: input_lookup_def patch_lookup_def split: option.splits)
  have "pairs = []"
  proof (cases pairs rule: rev_cases)
    case Nil
    then show ?thesis .
  next
    case (snoc ys x)
    obtain a v where x: "x = (a, v)" by (cases x)
    from snoc x have "map_of (rev pairs) a = Some v" by simp
    with none [of a] show ?thesis by simp
  qed
  with p show ?thesis by (simp add: annotation_pairs_nil)
qed

text \<open>
  Against claim C9 as stated: on a procedure that carries a bare \<^verbatim>\<open>@patch\<close> tag, part 000
  skips the tag (its guard asks for a string or an object), leaves the resolver
  unwrapped and passes the submitted input on, while \<^verbatim>\<open>ResolvePatchFieldsPlugin.ts\<close> calls
  \<^verbatim>\<open>split\<close> on \<^verbatim>\<open>true\<close> and throws. On a mutation without any annotation and a \<^verbatim>\<open>null\<close> at a
  nullable field of a composite type, part 000 again passes the submitted input on and
  the other version throws.
\<close>

theorem bare_tag_counterexample:
  "mutation_precomputed bare_build example_scope example_field [(''input'', example_input)]
     = Inr [(''input'', example_input)]
   \<and> mutation_legacy bare_build example_scope example_field [(''input'', example_input)]
     = Inl TypeError
   \<and> mutation_precomputed example_build example_scope plain_field [(''input'', null_owner_input)]
     = Inr [(''input'', null_owner_input)]
   \<and> mutation_legacy example_build example_scope plain_field [(''input'', null_owner_input)]
     = Inl TypeError"
  by (simp add: mutation_legacy_def filter_legacy_def resolver_legacy_def arg_value_def
      mutation_precomputed_def filter_precomputed_def resolver_precomputed_def
      example_scope_def example_field_def UpdateEntityInput_def EntityTablePatch_def
      example_input_def bare_build_def example_build_def plain_field_def
      CreateThingInput_def null_owner_input_def
      patchArgAndTableMap_def patchTags_def procPatch_def typePatch_def)

text \<open>
  Claim C9, amended. Take a root mutation that comes from a procedure and declares an
  \<^verbatim>\<open>input\<close> argument, such that: the precomputation of the patch map completes (no
  annotation lacks its second token); the names of the type tree are GraphQL names and
  a name stands for one kind of type; no reachable input object type carries a bare
  \<^verbatim>\<open>@patch\<close> tag; and the submitted value of \<^verbatim>\<open>input\<close> conforms to the input type (at a
  position whose type has fields it is an object, \<^verbatim>\<open>null\<close> or absent) and is a tree (no
  object occurs at two of its positions).

  \<^item> When the precomputed patch map is not empty, the two versions throw together or
    hand the underlying resolver the same value of \<^verbatim>\<open>input\<close>.

  \<^item> When the precomputed patch map is empty, part 000 leaves the resolver unwrapped and
    the underlying resolver receives the submitted arguments; the other version
    either throws or hands it the submitted value of \<^verbatim>\<open>input\<close>.
\<close>

theorem rewrites_agree:
  assumes pop: "populatePatchMap b inputArgType [] = Inr patchMap"
    and names: "valid_names inputArgType"
    and bare: "\<forall>(k, n) \<in> nodes inputArgType. patchTags b n \<noteq> Some TagTrue"
    and conf: "conforms inputArgType (arg_value args ''input'')"
    and mut: "isRootMutation sc" "pgFieldIntrospection_kind sc = Some ''procedure''"
      "map_of (field_args fld) ''input'' = Some inputArgType"
  shows "(patchMap \<noteq> [] \<longrightarrow>
            (case mutation_precomputed b sc fld args of
               Inl e \<Rightarrow> mutation_legacy b sc fld args = Inl e
             | Inr args' \<Rightarrow>
                 \<exists>r. mutation_legacy b sc fld args = Inr r \<and>
                     arg_value r ''input'' = arg_value args' ''input''))
       \<and> (patchMap = [] \<longrightarrow>
            mutation_precomputed b sc fld args = Inr args \<and>
            (mutation_legacy b sc fld args = Inl TypeError \<or>
             (\<exists>r. mutation_legacy b sc fld args = Inr r \<and>
                  arg_value r ''input'' = arg_value args ''input'')))"
proof -
  have "\<forall>(k, n) \<in> nodes inputArgType. agrees b patchMap k n"
    using populate_agrees [OF pop names bare] by auto
  from agree_transform(1) [OF this conf]
  have eq: "transform b patchMap inputArgType (arg_value args ''input'')
           = transform_legacy b inputArgType (arg_value args ''input'')" .
  have l: "mutation_legacy b sc fld args =
      (case transform_legacy b inputArgType (arg_value args ''input'') of
         Inl e \<Rightarrow> Inl e
       | Inr input' \<Rightarrow> Inr [(''input'', input')])"
    using mut by (simp add: mutation_legacy_def filter_legacy_def resolver_legacy_def)
  have 1: "case mutation_precomputed b sc fld args of
               Inl e \<Rightarrow> mutation_legacy b sc fld args = Inl e
             | Inr args' \<Rightarrow>
                 \<exists>r. mutation_legacy b sc fld args = Inr r \<and>
                     arg_value r ''input'' = arg_value args' ''input''"
    if w: "patchMap \<noteq> []"
  proof -
    have f: "filter_precomputed b sc fld = Inr (Some patchMap)"
      using w mut pop by (simp add: filter_precomputed_def)
    have p: "mutation_precomputed b sc fld args =
        (case transform b patchMap inputArgType (arg_value args ''input'') of
           Inl e \<Rightarrow> Inl e
         | Inr input' \<Rightarrow> Inr (if ''input'' \<in> fst ` set args
                               then AList.update ''input'' input' args else args))"
      using mut f by (simp add: mutation_precomputed_def resolver_precomputed_def)
    have l1: "mutation_legacy b sc fld args =
        (case transform b patchMap inputArgType (arg_value args ''input'') of
           Inl e \<Rightarrow> Inl e
         | Inr input' \<Rightarrow> Inr [(''input'', input')])"
      unfolding l eq ..
    show ?thesis
    proof (cases "transform b patchMap inputArgType (arg_value args ''input'')")
      case (Inl e)
      then show ?thesis by (simp add: p l1)
    next
      case (Inr input')
      show ?thesis
      proof (cases "''input'' \<in> fst ` set args")
        case True
        then show ?thesis
          using Inr by (simp add: p l1 arg_value_def update_conv')
      next
        case False
        then have "map_of args ''input'' = None"
          by (simp add: map_of_eq_None_iff)
        then have u: "arg_value args ''input'' = JUndefined"
          by (simp add: arg_value_def)
        with Inr transform_undefined have "input' = JUndefined" by metis
        with False Inr u show ?thesis
          by (simp add: p l1 arg_value_def)
      qed
    qed
  qed
  have 2: "mutation_precomputed b sc fld args = Inr args \<and>
            (mutation_legacy b sc fld args = Inl TypeError \<or>
             (\<exists>r. mutation_legacy b sc fld args = Inr r \<and>
                  arg_value r ''input'' = arg_value args ''input''))"
    if w: "patchMap = []"
  proof -
    have f: "filter_precomputed b sc fld = Inr None"
      using w mut pop by (simp add: filter_precomputed_def)
    then have p: "mutation_precomputed b sc fld args = Inr args"
      by (simp add: mutation_precomputed_def)
    from names have bf: "\<forall>(k, n) \<in> nodes inputArgType. bar_free n"
      by (auto simp: valid_names_def)
    have none: "\<forall>(k, n) \<in> nodes inputArgType. k = InputObjectType \<longrightarrow> annotations b n = []"
      using populate_empty [OF pop [unfolded w] bf] by auto
    have "mutation_legacy b sc fld args = Inl TypeError \<or>
             (\<exists>r. mutation_legacy b sc fld args = Inr r \<and>
                  arg_value r ''input'' = arg_value args ''input'')"
    proof (cases "transform_legacy b inputArgType (arg_value args ''input'')")
      case (Inl e)
      then show ?thesis by (simp add: l only_error [of e])
    next
      case (Inr input')
      from legacy_unannotated(1) [OF none conf Inr] have "input' = arg_value args ''input''" .
      with Inr show ?thesis by (simp add: l arg_value_def)
    qed
    with p show ?thesis by simp
  qed
  show ?thesis
  proof (rule conjI; rule impI)
    assume "patchMap \<noteq> []"
    then show "case mutation_precomputed b sc fld args of
               Inl e \<Rightarrow> mutation_legacy b sc fld args = Inl e
             | Inr args' \<Rightarrow>
                 \<exists>r. mutation_legacy b sc fld args = Inr r \<and>
                     arg_value r ''input'' = arg_value args' ''input''"
      by (rule 1)
  next
    assume "patchMap = []"
    then show "mutation_precomputed b sc fld args = Inr args \<and>
            (mutation_legacy b sc fld args = Inl TypeError \<or>
             (\<exists>r. mutation_legacy b sc fld args = Inr r \<and>
                  arg_value r ''input'' = arg_value args ''input''))"
      by (rule 2)
  qed
qed

theorem rewrites_agree_witness:
  "mutation_precomputed example_build example_scope example_field [(''input'', example_input)]
     = Inr [(''input'', example_rewritten)]
   \<and> mutation_legacy example_build example_scope example_field [(''input'', example_input)]
     = Inr [(''input'', example_rewritten)]
   \<and> mutation_precomputed example_build example_scope plain_field [(''input'', plain_input)]
     = Inr [(''input'', plain_input)]
   \<and> (mutation_legacy example_build example_scope plain_field [(''input'', plain_input)]
         = Inl TypeError
      \<or> (\<exists>r. mutation_legacy example_build example_scope plain_field [(''input'', plain_input)]
                 = Inr r
             \<and> arg_value r ''input'' = plain_input))"
proof -
  let ?pm = "[(getKey ''UpdateEntityInput'' ''patch'', Some entity_table)]"
  let ?args = "[(''input'', example_input)]"
  let ?plain = "[(''input'', plain_input)]"
  have pt: "patchTags example_build ''UpdateEntityInput'' = Some (TagStr ''patch schema.entity_table'')"
    "patchTags example_build ''EntityTablePatch'' = None"
    "patchTags example_build ''CreateThingInput'' = None"
    "patchTags example_build ''OwnerInput'' = None"
    by (simp_all add: patchTags_def procPatch_def typePatch_def example_build_def)
  have ft: "findTable example_build ''patch schema.entity_table'' = Inr (''patch'', Some entity_table)"
    by (simp add: findTable_def example_build_def entity_table_def)
  have arg: "argument example_build ''patch'' = ''patch''"
    by (simp add: example_build_def)
  have pop: "populatePatchMap example_build (NonNullType UpdateEntityInput) [] = Inr ?pm"
    by (simp add: UpdateEntityInput_def EntityTablePatch_def pt ft arg)
  have names: "valid_names (NonNullType UpdateEntityInput)"
    by (simp add: valid_names_def UpdateEntityInput_def EntityTablePatch_def bar_free_def)
  have bare: "\<forall>(k, n) \<in> nodes (NonNullType UpdateEntityInput). patchTags example_build n \<noteq> Some TagTrue"
    by (simp add: UpdateEntityInput_def EntityTablePatch_def pt)
  have conf: "conforms (NonNullType UpdateEntityInput) (arg_value ?args ''input'')"
    by (simp add: arg_value_def UpdateEntityInput_def EntityTablePatch_def example_input_def)
  have mut: "isRootMutation example_scope" "pgFieldIntrospection_kind example_scope = Some ''procedure''"
    "map_of (field_args example_field) ''input'' = Some (NonNullType UpdateEntityInput)"
    by (simp_all add: example_scope_def example_field_def)
  have ne: "?pm \<noteq> []" by simp
  have m: "mutation_precomputed example_build example_scope example_field ?args
      = Inr [(''input'', example_rewritten)]"
    using pop
    by (simp add: mutation_precomputed_def filter_precomputed_def resolver_precomputed_def
      arg_value_def example_scope_def example_field_def UpdateEntityInput_def EntityTablePatch_def
      example_input_def example_rewritten_def newJson_def getKey_def entity_table_def example_build_def)
  note th = rewrites_agree [OF pop names bare conf mut]
  from th [THEN conjunct1, rule_format, OF ne]
  obtain r where r: "mutation_legacy example_build example_scope example_field ?args = Inr r"
      "arg_value r ''input'' = example_rewritten"
    unfolding m by (auto simp: arg_value_def)
  from r(1) have "r = [(''input'', arg_value r ''input'')]"
    by (auto simp: mutation_legacy_def resolver_legacy_def arg_value_def example_field_def
        split: if_splits sum.splits)
  with r have 1: "mutation_legacy example_build example_scope example_field ?args
     = Inr [(''input'', example_rewritten)]" by simp
  have pop': "populatePatchMap example_build (NonNullType CreateThingInput) [] = Inr []"
    by (simp add: CreateThingInput_def pt)
  have names': "valid_names (NonNullType CreateThingInput)"
    by (simp add: valid_names_def CreateThingInput_def bar_free_def)
  have bare': "\<forall>(k, n) \<in> nodes (NonNullType CreateThingInput). patchTags example_build n \<noteq> Some TagTrue"
    by (simp add: CreateThingInput_def pt)
  have conf': "conforms (NonNullType CreateThingInput) (arg_value ?plain ''input'')"
    by (simp add: arg_value_def CreateThingInput_def plain_input_def)
  have mut': "map_of (field_args plain_field) ''input'' = Some (NonNullType CreateThingInput)"
    by (simp add: plain_field_def)
  note th' = rewrites_agree [OF pop' names' bare' conf' mut(1,2) mut']
  from th' [THEN conjunct2, rule_format, OF refl]
  have 2: "mutation_precomputed example_build example_scope plain_field ?plain = Inr ?plain \<and>
      (mutation_legacy example_build example_scope plain_field ?plain = Inl TypeError \<or>
       (\<exists>r. mutation_legacy example_build example_scope plain_field ?plain = Inr r \<and>
            arg_value r ''input'' = arg_value ?plain ''input''))" .
  have av: "arg_value ?plain ''input'' = plain_input" by (simp add: arg_value_def)
  from m 1 2 show ?thesis by (simp only: av simp_thms)
qed

section \<open>When the rewrite completes\<close>

lemma reduceAttributes_objectish:
  "objectish val \<Longrightarrow> \<exists>r. reduceAttributes b attrs val obj = Inr r"
proof (induction attrs arbitrary: obj)
  case Nil
  then show ?case by simp
next
  case (Cons a attrs)
  from Cons.prems obtain p where "has_in b (column b a) val = Inr p"
    by (cases val) auto
  with Cons.IH [OF Cons.prems] show ?case by (cases p) auto
qed

lemma newJson_objectish:
  "objectish val \<Longrightarrow> \<exists>r. newJson b (Some T) val = Inr r"
  using reduceAttributes_objectish [of val b "class_attributes T" "[]"]
  by (auto simp: newJson_def)

lemma shaped_transform:
  "look = precomputed_look pm \<Longrightarrow> shaped look t v \<Longrightarrow> \<exists>r. transform b pm t v = Inr r"
  "look = precomputed_look pm \<Longrightarrow> shaped_items look t xs \<Longrightarrow> \<exists>r. transform_items b pm t xs = Inr r"
  "look = precomputed_look pm \<Longrightarrow> shaped_entries look k n fs es \<Longrightarrow>
     \<exists>r. transform_entries b pm n fs es (JObj cur) = Inr r"
proof (induction look t v and look t xs and look k n fs es arbitrary: and and cur
    rule: shaped_shaped_items_shaped_entries.induct)
  case (1 look ofType v)
  then show ?case by (cases v) (auto split: sum.splits)
next
  case (2 look ofType v)
  then show ?case by simp
next
  case (3 look k name gqlFields v)
  then show ?case by (cases v) auto
next
  case (4 look uu v)
  then show ?case by simp
next
  case (5 look ofType)
  then show ?case by simp
next
  case (6 look ofType listItem rest)
  then show ?case by (auto split: sum.splits)
next
  case (7 look k name gqlFields)
  then show ?case by simp
next
  case (8 look k name gqlFields arg val rest)
  from "8.prems" have rest: "shaped_entries look k name gqlFields rest" by simp
  have "\<exists>x. transform_entry b pm name gqlFields arg val = Inr x"
  proof (cases "look k name arg")
    case None
    with "8.prems" obtain ft where ft: "map_of gqlFields arg = Some ft" "shaped look ft val"
      by (auto split: option.splits)
    from "8.IH"(1) [OF None ft(1) "8.prems"(1) ft(2)] None ft(1) "8.prems"(1)
    show ?thesis by (simp add: transform_entry_def precomputed_look_def)
  next
    case (Some table)
    with "8.prems" obtain T where "table = Some T" "objectish val" by auto
    with Some "8.prems"(1) newJson_objectish [of val b T]
    show ?thesis by (simp add: transform_entry_def precomputed_look_def)
  qed
  then obtain x where x: "transform_entry b pm name gqlFields arg val = Inr x" by blast
  from "8.IH"(2) [OF "8.prems"(1) rest] x
  show ?case by (simp only: transform_entries_step) simp
qed

lemma shaped_transform_legacy:
  "look = legacy_look b \<Longrightarrow> \<forall>(k, n) \<in> nodes t. \<exists>m. patchArgAndTableMap b k n = Inr m \<Longrightarrow>
     shaped look t v \<Longrightarrow> \<exists>r. transform_legacy b t v = Inr r"
  "look = legacy_look b \<Longrightarrow> \<forall>(k, n) \<in> nodes t. \<exists>m. patchArgAndTableMap b k n = Inr m \<Longrightarrow>
     shaped_items look t xs \<Longrightarrow> \<exists>r. map_legacy b t xs = Inr r"
  "look = legacy_look b \<Longrightarrow> \<forall>(k, n) \<in> nodes_fields fs. \<exists>m. patchArgAndTableMap b k n = Inr m \<Longrightarrow>
     shaped_entries look k n fs es \<Longrightarrow> patchArgAndTableMap b k n = Inr m \<Longrightarrow>
     \<exists>r. reduce_legacy b m fs es res = Inr r"
proof (induction look t v and look t xs and look k n fs es arbitrary: and and res m
    rule: shaped_shaped_items_shaped_entries.induct)
  case (1 look ofType v)
  then show ?case by (cases v) (auto split: sum.splits)
next
  case (2 look ofType v)
  then show ?case by simp
next
  case (3 look k name gqlFields v)
  from "3.prems"(2) obtain m where m: "patchArgAndTableMap b k name = Inr m" by auto
  from "3.prems"(2) have sub: "\<forall>(k, n) \<in> nodes_fields gqlFields. \<exists>m. patchArgAndTableMap b k n = Inr m"
    by auto
  from "3.prems"(3) obtain kvs where v: "v = JObj kvs" and s: "shaped_entries look k name gqlFields kvs"
    by (cases v) auto
  from "3.IH" [OF v "3.prems"(1) sub s m, of "[]"] m v
  show ?case by auto
next
  case (4 look uu v)
  then show ?case by simp
next
  case (5 look ofType)
  then show ?case by simp
next
  case (6 look ofType listItem rest)
  then show ?case by (auto split: sum.splits)
next
  case (7 look k name gqlFields)
  then show ?case by simp
next
  case (8 look k name gqlFields arg val rest)
  from "8.prems" have rest: "shaped_entries look k name gqlFields rest" by simp
  from "8.prems"(1,4) have lk: "look k name arg = map_of m arg"
    by (simp add: legacy_look_def)
  have "\<exists>x. legacy_entry b m gqlFields arg val = Inr x"
  proof (cases "look k name arg")
    case None
    with "8.prems" obtain ft where ft: "map_of gqlFields arg = Some ft" "shaped look ft val"
      by (auto split: option.splits)
    from "8.prems"(2) nodes_field [OF ft(1)]
    have "\<forall>(k, n) \<in> nodes ft. \<exists>m. patchArgAndTableMap b k n = Inr m" by auto
    from "8.IH"(1) [OF None ft(1) "8.prems"(1) this ft(2)] None ft(1) lk
    show ?thesis by (simp add: legacy_entry_def)
  next
    case (Some table)
    with "8.prems" obtain T where "table = Some T" "objectish val" by auto
    with Some lk newJson_objectish [of val b T]
    show ?thesis by (simp add: legacy_entry_def)
  qed
  then obtain x where x: "legacy_entry b m gqlFields arg val = Inr x" by blast
  from "8.IH"(2) [OF "8.prems"(1,2) rest "8.prems"(4)] x
  show ?case by (simp only: reduce_legacy_step) simp
qed

text \<open>
  Against claim C10 as stated: in \<^verbatim>\<open>{ id: "u1", patch: null }\<close> every key of every object is
  a declared field of its type, and the rewrite throws in both versions (\<^verbatim>\<open>in\<close> on
  \<^verbatim>\<open>null\<close>). That the keys are declared is not enough.
\<close>

theorem null_patch_counterexample:
  "keys_declared (NonNullType UpdateEntityInput) null_patch_input
   \<and> mutation_precomputed example_build example_scope example_field [(''input'', null_patch_input)]
       = Inl TypeError
   \<and> mutation_legacy example_build example_scope example_field [(''input'', null_patch_input)]
       = Inl TypeError"
  by (simp add: mutation_legacy_def filter_legacy_def resolver_legacy_def arg_value_def
      mutation_precomputed_def filter_precomputed_def resolver_precomputed_def
      example_scope_def example_field_def UpdateEntityInput_def EntityTablePatch_def
      null_patch_input_def example_build_def entity_table_def
      patchArgAndTableMap_def patchTags_def procPatch_def typePatch_def findTable_def
      newJson_def getKey_def)

text \<open>
  Claim C10, amended. The rewrite completes without error on every submitted input value
  that is well shaped for the input type: at every position whose type has fields the
  value is an object, each key of which is either matched by an annotation whose table
  resolved, with an object or an array as its value, or a declared field of the type
  whose value is well shaped for its type (for the version without precomputation, the
  annotations of the reachable types must also be readable). An object with a key that
  is neither matched by an annotation nor declared on its type makes the rewrite throw,
  in both versions.
\<close>

theorem well_shaped_total:
  "(shaped (precomputed_look patchMap) t v \<longrightarrow> (\<exists>r. transform b patchMap t v = Inr r))
   \<and> ((\<forall>(k, n) \<in> nodes t. \<exists>m. patchArgAndTableMap b k n = Inr m) \<and> shaped (legacy_look b) t v
        \<longrightarrow> (\<exists>r. transform_legacy b t v = Inr r))
   \<and> ((arg, val) \<in> set kvs \<and> map_of patchMap (getKey name arg) = None \<and> map_of gqlFields arg = None
        \<longrightarrow> transform b patchMap (ObjectLike k name gqlFields) (JObj kvs) = Inl TypeError)
   \<and> ((arg, val) \<in> set kvs \<and> patchArgAndTableMap b k name = Inr argAndTable \<and>
       map_of argAndTable arg = None \<and> map_of gqlFields arg = None
        \<longrightarrow> transform_legacy b (ObjectLike k name gqlFields) (JObj kvs) = Inl TypeError)"
proof -
  have 1: "\<exists>r. transform b patchMap t v = Inr r" if "shaped (precomputed_look patchMap) t v"
    using shaped_transform(1) [OF refl that] .
  have 2: "\<exists>r. transform_legacy b t v = Inr r"
    if "\<forall>(k, n) \<in> nodes t. \<exists>m. patchArgAndTableMap b k n = Inr m" "shaped (legacy_look b) t v"
    using shaped_transform_legacy(1) [OF refl that] .
  have 3: "transform b patchMap (ObjectLike k name gqlFields) (JObj kvs) = Inl TypeError"
    if "(arg, val) \<in> set kvs" "map_of patchMap (getKey name arg) = None" "map_of gqlFields arg = None"
  proof -
    from that(2,3) have "transform_entry b patchMap name gqlFields arg val = Inl TypeError"
      by (simp add: transform_entry_def)
    from transform_entries_fail [OF that(1) this] show ?thesis by simp
  qed
  have 4: "transform_legacy b (ObjectLike k name gqlFields) (JObj kvs) = Inl TypeError"
    if "(arg, val) \<in> set kvs" "patchArgAndTableMap b k name = Inr argAndTable"
       "map_of argAndTable arg = None" "map_of gqlFields arg = None"
  proof -
    from that(3,4) have "legacy_entry b argAndTable gqlFields arg val = Inl TypeError"
      by (simp add: legacy_entry_def)
    from reduce_legacy_fail [OF that(1) this] that(2) show ?thesis by simp
  qed
  from 1 2 3 4 show ?thesis by blast
qed

theorem well_shaped_total_witness:
  "(\<exists>r. transform example_build example_patch_map (NonNullType UpdateEntityInput) example_input = Inr r)
   \<and> (\<exists>r. transform_legacy example_build (NonNullType UpdateEntityInput) example_input = Inr r)
   \<and> transform example_build example_patch_map UpdateEntityInput (JObj [(''bogus'', JNum 1)])
       = Inl TypeError
   \<and> transform_legacy example_build UpdateEntityInput (JObj [(''bogus'', JNum 1)]) = Inl TypeError"
proof -
  let ?fs = "[(''id'', OtherType ''UUID''), (''patch'', EntityTablePatch)]"
  have pt: "patchTags example_build ''UpdateEntityInput'' = Some (TagStr ''patch schema.entity_table'')"
    "patchTags example_build ''EntityTablePatch'' = None"
    by (simp_all add: patchTags_def procPatch_def typePatch_def example_build_def)
  have ft: "findTable example_build ''patch schema.entity_table'' = Inr (''patch'', Some entity_table)"
    by (simp add: findTable_def example_build_def entity_table_def)
  have arg: "argument example_build ''patch'' = ''patch''"
    by (simp add: example_build_def)
  have am: "patchArgAndTableMap example_build InputObjectType ''UpdateEntityInput''
      = Inr [(''patch'', Some entity_table)]"
    "patchArgAndTableMap example_build InputObjectType ''EntityTablePatch'' = Inr []"
    by (simp_all add: patchArgAndTableMap_def pt ft arg)
  have s1: "shaped (precomputed_look example_patch_map) (NonNullType UpdateEntityInput) example_input"
    by (simp add: precomputed_look_def example_patch_map_def UpdateEntityInput_def
        EntityTablePatch_def example_input_def getKey_def)
  have n2: "\<forall>(k, n) \<in> nodes (NonNullType UpdateEntityInput).
      \<exists>m. patchArgAndTableMap example_build k n = Inr m"
    by (simp add: UpdateEntityInput_def EntityTablePatch_def am)
  have s2: "shaped (legacy_look example_build) (NonNullType UpdateEntityInput) example_input"
    by (simp add: legacy_look_def am UpdateEntityInput_def EntityTablePatch_def example_input_def)
  have b3: "(''bogus'', JNum 1) \<in> set [(''bogus'', JNum 1)]
      \<and> map_of example_patch_map (getKey ''UpdateEntityInput'' ''bogus'') = None
      \<and> map_of ?fs ''bogus'' = None"
    by (simp add: example_patch_map_def getKey_def)
  have b4: "(''bogus'', JNum 1) \<in> set [(''bogus'', JNum 1)]
      \<and> patchArgAndTableMap example_build InputObjectType ''UpdateEntityInput''
          = Inr [(''patch'', Some entity_table)]
      \<and> map_of [(''patch'', Some entity_table)] ''bogus'' = None
      \<and> map_of ?fs ''bogus'' = None"
    by (simp add: am)
  note th = well_shaped_total [of example_patch_map "NonNullType UpdateEntityInput" example_input
      example_build "''bogus''" "JNum 1" "[(''bogus'', JNum 1)]" "''UpdateEntityInput''" ?fs
      InputObjectType "[(''patch'', Some entity_table)]"]
  from th [THEN conjunct1, rule_format, OF s1]
  have 1: "\<exists>r. transform example_build example_patch_map (NonNullType UpdateEntityInput)
      example_input = Inr r" .
  from th [THEN conjunct2, THEN conjunct1, rule_format, OF conjI [OF n2 s2]]
  have 2: "\<exists>r. transform_legacy example_build (NonNullType UpdateEntityInput)
      example_input = Inr r" .
  from th [THEN conjunct2, THEN conjunct2, THEN conjunct1, rule_format, OF b3]
  have 3: "transform example_build example_patch_map
      (ObjectLike InputObjectType ''UpdateEntityInput'' ?fs) (JObj [(''bogus'', JNum 1)]) = Inl TypeError" .
  from th [THEN conjunct2, THEN conjunct2, THEN conjunct2, rule_format, OF b4]
  have 4: "transform_legacy example_build
      (ObjectLike InputObjectType ''UpdateEntityInput'' ?fs) (JObj [(''bogus'', JNum 1)]) = Inl TypeError" .
  from 1 2 3 4 show ?thesis
    by (simp only: UpdateEntityInput_def)
qed

end
